theory Spec2Isabelle
  imports Main "HOL-Library.Word"
begin

unbundle bit_operations_syntax

section \<open>Values, pointers and versions\<close>

type_synonym byte = "8 word"
type_synonym uint16 = "16 word"
type_synonym SegmentId = "16 word"

text \<open>
  Modelled from the spec: the pointer type \<^verbatim>\<open>reg_t\<close> is declared outside the sources at
  hand. The spec gives a pointer as the pair (segmentId: u16, offset: u16), so the two
  accessors \<^verbatim>\<open>getSegment()\<close> and \<^verbatim>\<open>getOffset()\<close> return the stored fields unchanged, and
  a pointer whose segment identifier is 0 is the null pointer.
\<close>

datatype reg_t = make_reg (regSegment: SegmentId) (regOffset: uint16)

definition NULL_REG :: reg_t where
  "NULL_REG = make_reg 0 0"

definition isNull :: "reg_t \<Rightarrow> bool" where
  "isNull p = (regSegment p = 0)"

text \<open>
  Modelled from the spec: the enumeration of VM generations is declared outside the
  sources at hand; the constants the source compares \<^verbatim>\<open>getSciVersion()\<close> against are
  kept in release order, the generation that encodes extra high bits in a segment
  identifier being the last one.
\<close>

datatype SciVersion =
    SCI_VERSION_NONE
  | SCI_VERSION_0_EARLY
  | SCI_VERSION_0_LATE
  | SCI_VERSION_01
  | SCI_VERSION_1_EGA_ONLY
  | SCI_VERSION_1_EARLY
  | SCI_VERSION_1_MIDDLE
  | SCI_VERSION_1_LATE
  | SCI_VERSION_1_1
  | SCI_VERSION_2
  | SCI_VERSION_2_1_EARLY
  | SCI_VERSION_2_1_MIDDLE
  | SCI_VERSION_2_1_LATE
  | SCI_VERSION_3

fun versionRank :: "SciVersion \<Rightarrow> nat" where
  "versionRank SCI_VERSION_NONE = 0"
| "versionRank SCI_VERSION_0_EARLY = 1"
| "versionRank SCI_VERSION_0_LATE = 2"
| "versionRank SCI_VERSION_01 = 3"
| "versionRank SCI_VERSION_1_EGA_ONLY = 4"
| "versionRank SCI_VERSION_1_EARLY = 5"
| "versionRank SCI_VERSION_1_MIDDLE = 6"
| "versionRank SCI_VERSION_1_LATE = 7"
| "versionRank SCI_VERSION_1_1 = 8"
| "versionRank SCI_VERSION_2 = 9"
| "versionRank SCI_VERSION_2_1_EARLY = 10"
| "versionRank SCI_VERSION_2_1_MIDDLE = 11"
| "versionRank SCI_VERSION_2_1_LATE = 12"
| "versionRank SCI_VERSION_3 = 13"

section \<open>Segments\<close>

datatype SegmentType =
    SEG_TYPE_INVALID
  | SEG_TYPE_SCRIPT
  | SEG_TYPE_CLONES
  | SEG_TYPE_LOCALS
  | SEG_TYPE_STACK
  | SEG_TYPE_LISTS
  | SEG_TYPE_NODES
  | SEG_TYPE_HUNK
  | SEG_TYPE_DYNMEM
  | SEG_TYPE_ARRAY
  | SEG_TYPE_BITMAP

text \<open>
  A script segment: its number, its raw bytecode buffer, the locker count, the
  marked-deleted flag and the identifier of its locals segment (0 when it has none).
\<close>

record Script =
  scr_nr :: int
  scr_buf :: "byte list"
  scr_lockers :: nat
  scr_markedAsDeleted :: bool
  scr_localsSegment :: SegmentId

text \<open>
  The segment kinds of the model: scripts and dynamic buffers are byte-addressable,
  locals blocks and stacks hold 16-bit tagged cells.
\<close>

datatype SegmentObj =
    SegScript Script
  | SegLocals "reg_t list"
  | SegDynMem "byte list"
  | SegStack "reg_t list"


text \<open>
  The result of a dereference. The C++ union of the two pointers \<^verbatim>\<open>raw\<close> and \<^verbatim>\<open>reg\<close> is
  the field \<open>ptr\<close>: the slot of the directory and the index of the first addressed
  element (a byte of a raw buffer, a cell of a cell store), or \<open>None\<close> for the null
  pointer.
\<close>

record SegmentRef =
  isRaw :: bool
  ptr :: "(nat \<times> nat) option"
  maxSize :: int
  skipByte :: bool

text \<open>
  Modelled from the spec: the constructor and \<^verbatim>\<open>isValid()\<close> of the view type are
  declared outside the sources at hand. A fresh view is invalid and carries no pointer.
\<close>

definition SegmentRef_new :: SegmentRef where
  "SegmentRef_new = \<lparr>isRaw = True, ptr = None, maxSize = 0, skipByte = False\<rparr>"

definition isValid :: "SegmentRef \<Rightarrow> bool" where
  "isValid r = (ptr r \<noteq> None)"

text \<open>
  Modelled from the spec: each segment's own \<^verbatim>\<open>dereference\<close> is defined outside the
  sources at hand. A byte-addressable segment answers with a raw view of the bytes that
  remain from the offset; a cell-addressed segment answers with a non-raw view that
  starts at the cell holding the offset, \<open>skipByte\<close> set for an odd offset. In both, the
  bound counts the remaining bytes, the unit in which \<^verbatim>\<open>getString\<close> and \<^verbatim>\<open>derefRegPtr\<close> of
  the source compare it; an offset out of range gives the invalid view.
\<close>

fun SegmentObj_dereference :: "SegmentObj \<Rightarrow> reg_t \<Rightarrow> SegmentRef" where
  "SegmentObj_dereference (SegScript scr) p =
     (let off = unat (regOffset p) in
      if off < length (scr_buf scr)
      then \<lparr>isRaw = True, ptr = Some (unat (regSegment p), off),
            maxSize = int (length (scr_buf scr)) - int off, skipByte = False\<rparr>
      else SegmentRef_new)"
| "SegmentObj_dereference (SegDynMem bytes) p =
     (let off = unat (regOffset p) in
      if off < length bytes
      then \<lparr>isRaw = True, ptr = Some (unat (regSegment p), off),
            maxSize = int (length bytes) - int off, skipByte = False\<rparr>
      else SegmentRef_new)"
| "SegmentObj_dereference (SegLocals cells) p =
     (let off = unat (regOffset p) in
      if off < 2 * length cells
      then \<lparr>isRaw = False, ptr = Some (unat (regSegment p), off div 2),
            maxSize = 2 * int (length cells) - int off, skipByte = odd off\<rparr>
      else SegmentRef_new)"
| "SegmentObj_dereference (SegStack cells) p =
     (let off = unat (regOffset p) in
      if off < 2 * length cells
      then \<lparr>isRaw = False, ptr = Some (unat (regSegment p), off div 2),
            maxSize = 2 * int (length cells) - int off, skipByte = odd off\<rparr>
      else SegmentRef_new)"

section \<open>The segment manager\<close>

text \<open>Fatal outcomes: the \<^verbatim>\<open>error(...)\<close> calls and failed assertions of the source, and
  an access outside the storage a pointer addresses (undefined behaviour in C++).\<close>

datatype error =
    InvalidMobj
  | DeallocateInvalidSegment
  | DeallocateFreedSegment
  | GetScriptOutOfBounds
  | GetScriptNotInMemory
  | GetScriptWrongType
  | AssertionFailed
  | OutOfBoundsAccess

text \<open>Diagnostics: the \<^verbatim>\<open>warning(...)\<close> and \<^verbatim>\<open>debugC(...)\<close> calls of the source.\<close>

datatype diag =
    WarnDereferenceInvalid reg_t
  | WarnRawMismatch reg_t
  | WarnUnaligned reg_t
  | WarnBeyondEnd reg_t
  | WarnStrncpyToInvalid reg_t
  | WarnStrncpyFromInvalid reg_t
  | WarnMemcpyToInvalid reg_t
  | WarnMemcpyFromInvalid reg_t
  | WarnGetStringInvalid reg_t
  | WarnNonRawRead
  | DebugUnloaded int

record Class =
  class_script :: int
  class_reg :: reg_t

text \<open>
  Modelled from the spec: what the script loader returns for a script number (the
  loader is an external collaborator): the bytecode bytes, the number of local
  variables and the classes the script defines, each with its offset in the script.
\<close>

record ScriptImage =
  img_buf :: "byte list"
  img_locals :: nat
  img_classes :: "(nat \<times> uint16) list"

text \<open>
  The manager's state: the directory \<^verbatim>\<open>_heap\<close>, the map from script numbers to segment
  identifiers, the class table, and what the source reads from its environment: the VM
  generation \<^verbatim>\<open>getSciVersion()\<close>, the byte order \<^verbatim>\<open>g_sci->isBE()\<close>, the script loader,
  and the diagnostics emitted so far (latest first).
\<close>

record SegManager =
  heap :: "SegmentObj option list"
  scriptSegMap :: "int \<rightharpoonup> SegmentId"
  classTable :: "Class list"
  sciVersion :: SciVersion
  isBE :: bool
  resMan :: "int \<Rightarrow> ScriptImage"
  diagnostics :: "diag list"

definition warning :: "diag \<Rightarrow> SegManager \<Rightarrow> SegManager" where
  "warning d s = s\<lparr>diagnostics := d # diagnostics s\<rparr>"

subsection \<open>Identifier allocation\<close>

function findFreeSegment_loop :: "SegmentObj option list \<Rightarrow> nat \<Rightarrow> nat" where
  "findFreeSegment_loop h seg =
     (if seg < length h \<and> h ! seg \<noteq> None then findFreeSegment_loop h (Suc seg) else seg)"
  by pat_completeness auto
termination
  by (relation "measure (\<lambda>(h, seg). length h - seg)") auto

declare findFreeSegment_loop.simps [simp del]

definition findFreeSegment :: "SegManager \<Rightarrow> error + SegmentId" where
  "findFreeSegment s =
     (let seg = findFreeSegment_loop (heap s) 1 in
      if seg < 65536 then Inr (word_of_nat seg) else Inl AssertionFailed)"

definition allocSegment :: "SegManager \<Rightarrow> SegmentObj option \<Rightarrow> error + (SegManager \<times> SegmentId)" where
  "allocSegment s mem =
     (case findFreeSegment s of
        Inl e \<Rightarrow> Inl e
      | Inr ident \<Rightarrow>
         (case mem of
            None \<Rightarrow> Inl InvalidMobj
          | Some m \<Rightarrow>
             (if length (heap s) \<le> unat ident
              then (if unat ident = length (heap s)
                    then Inr (s\<lparr>heap := (heap s @ [None])[unat ident := Some m]\<rparr>, ident)
                    else Inl AssertionFailed)
              else Inr (s\<lparr>heap := (heap s)[unat ident := Some m]\<rparr>, ident))))"

subsection \<open>Resolving identifiers\<close>

definition getActualSegment :: "SegManager \<Rightarrow> SegmentId \<Rightarrow> SegmentId" where
  "getActualSegment s seg =
     (if versionRank (sciVersion s) \<le> versionRank SCI_VERSION_2_1_LATE then seg
      else seg AND 0x3FFF)"

text \<open>
  \<^verbatim>\<open>deallocate\<close> calls itself on the locals segment of a script before it clears the
  slot; nothing bounds the chain, so the recursion runs on fuel and \<open>None\<close> stands for a
  call that does not return. Indexing \<^verbatim>\<open>_heap\<close> outside its size fails the array's
  assertion.
\<close>

primrec deallocate :: "nat \<Rightarrow> SegManager \<Rightarrow> SegmentId \<Rightarrow> (error + SegManager) option" where
  "deallocate 0 s seg = None"
| "deallocate (Suc fuel) s seg =
     (let actualSegment = getActualSegment s seg in
      if actualSegment < 1 \<or> length (heap s) \<le> unat actualSegment
      then Some (Inl DeallocateInvalidSegment)
      else
        (case heap s ! unat actualSegment of
           None \<Rightarrow> Some (Inl DeallocateFreedSegment)
         | Some mobj \<Rightarrow>
            (case (case mobj of
                     SegScript scr \<Rightarrow>
                       (let s1 = s\<lparr>scriptSegMap := (scriptSegMap s)(scr_nr scr := None)\<rparr> in
                        if scr_localsSegment scr \<noteq> 0
                        then (if length (heap s1) \<le> unat (scr_localsSegment scr)
                              then Some (Inl AssertionFailed)
                              else if heap s1 ! unat (scr_localsSegment scr) \<noteq> None
                              then deallocate fuel s1 (scr_localsSegment scr)
                              else Some (Inr s1))
                        else Some (Inr s1))
                   | _ \<Rightarrow> Some (Inr s)) of
               None \<Rightarrow> None
             | Some (Inl e) \<Rightarrow> Some (Inl e)
             | Some (Inr s2) \<Rightarrow>
                 Some (Inr (s2\<lparr>heap := (heap s2)[unat actualSegment := None]\<rparr>)))))"

definition getScriptSegment :: "SegManager \<Rightarrow> int \<Rightarrow> SegmentId" where
  "getScriptSegment s script_id = (case scriptSegMap s script_id of None \<Rightarrow> 0 | Some seg \<Rightarrow> seg)"

definition getScript :: "SegManager \<Rightarrow> SegmentId \<Rightarrow> error + Script" where
  "getScript s seg =
     (let actualSegment = getActualSegment s seg in
      if actualSegment < 1 \<or> length (heap s) \<le> unat actualSegment
      then Inl GetScriptOutOfBounds
      else
        (case heap s ! unat actualSegment of
           None \<Rightarrow> Inl GetScriptNotInMemory
         | Some (SegScript scr) \<Rightarrow> Inr scr
         | Some _ \<Rightarrow> Inl GetScriptWrongType))"

definition getScriptIfLoaded :: "SegManager \<Rightarrow> SegmentId \<Rightarrow> Script option" where
  "getScriptIfLoaded s seg =
     (let actualSegment = getActualSegment s seg in
      if actualSegment < 1 \<or> length (heap s) \<le> unat actualSegment then None
      else
        (case heap s ! unat actualSegment of
           Some (SegScript scr) \<Rightarrow> Some scr
         | _ \<Rightarrow> None))"




subsection \<open>Dereferencing\<close>

definition dereference :: "SegManager \<Rightarrow> reg_t \<Rightarrow> SegManager \<times> SegmentRef" where
  "dereference s pointer =
     (if regSegment pointer = 0 \<or> length (heap s) \<le> unat (regSegment pointer)
         \<or> heap s ! unat (regSegment pointer) = None
      then (warning (WarnDereferenceInvalid pointer) s, SegmentRef_new)
      else (case heap s ! unat (regSegment pointer) of
              Some mobj \<Rightarrow> (s, SegmentObj_dereference mobj pointer)
            | None \<Rightarrow> (warning (WarnDereferenceInvalid pointer) s, SegmentRef_new)))"







section \<open>Memory behind a view\<close>

text \<open>
  The storage a segment owns, by addressing kind. A raw pointer addresses the bytes of
  a script or of a dynamic buffer; a cell pointer addresses the cells of a locals block
  or of a stack.
\<close>

fun rawStorage :: "SegmentObj \<Rightarrow> byte list option" where
  "rawStorage (SegScript scr) = Some (scr_buf scr)"
| "rawStorage (SegDynMem bytes) = Some bytes"
| "rawStorage (SegLocals cells) = None"
| "rawStorage (SegStack cells) = None"

fun cellStorage :: "SegmentObj \<Rightarrow> reg_t list option" where
  "cellStorage (SegLocals cells) = Some cells"
| "cellStorage (SegStack cells) = Some cells"
| "cellStorage (SegScript scr) = None"
| "cellStorage (SegDynMem bytes) = None"

fun setRawStorage :: "byte list \<Rightarrow> SegmentObj \<Rightarrow> SegmentObj" where
  "setRawStorage bs (SegScript scr) = SegScript (scr\<lparr>scr_buf := bs\<rparr>)"
| "setRawStorage bs (SegDynMem bytes) = SegDynMem bs"
| "setRawStorage bs (SegLocals cells) = SegLocals cells"
| "setRawStorage bs (SegStack cells) = SegStack cells"

fun setCellStorage :: "reg_t list \<Rightarrow> SegmentObj \<Rightarrow> SegmentObj" where
  "setCellStorage cs (SegLocals cells) = SegLocals cs"
| "setCellStorage cs (SegStack cells) = SegStack cs"
| "setCellStorage cs (SegScript scr) = SegScript scr"
| "setCellStorage cs (SegDynMem bytes) = SegDynMem bytes"

definition segBytes :: "SegManager \<Rightarrow> nat \<Rightarrow> byte list option" where
  "segBytes s seg =
     (if seg < length (heap s)
      then (case heap s ! seg of Some m \<Rightarrow> rawStorage m | None \<Rightarrow> None)
      else None)"

definition segCells :: "SegManager \<Rightarrow> nat \<Rightarrow> reg_t list option" where
  "segCells s seg =
     (if seg < length (heap s)
      then (case heap s ! seg of Some m \<Rightarrow> cellStorage m | None \<Rightarrow> None)
      else None)"

text \<open>
  Reading and writing through a pointer. An access outside the storage the pointer
  addresses is undefined behaviour in C++; the model stops with \<open>OutOfBoundsAccess\<close>.
\<close>

definition readRaw :: "SegManager \<Rightarrow> nat \<times> nat \<Rightarrow> nat \<Rightarrow> error + byte" where
  "readRaw s loc i =
     (case segBytes s (fst loc) of
        None \<Rightarrow> Inl OutOfBoundsAccess
      | Some bs \<Rightarrow>
          if snd loc + i < length bs then Inr (bs ! (snd loc + i)) else Inl OutOfBoundsAccess)"

definition writeRaw :: "SegManager \<Rightarrow> nat \<times> nat \<Rightarrow> nat \<Rightarrow> byte \<Rightarrow> error + SegManager" where
  "writeRaw s loc i b =
     (case segBytes s (fst loc) of
        None \<Rightarrow> Inl OutOfBoundsAccess
      | Some bs \<Rightarrow>
          if snd loc + i < length bs
          then Inr (s\<lparr>heap := (heap s)[fst loc :=
                       map_option (setRawStorage (bs[snd loc + i := b])) (heap s ! fst loc)]\<rparr>)
          else Inl OutOfBoundsAccess)"

definition readCell :: "SegManager \<Rightarrow> nat \<times> nat \<Rightarrow> nat \<Rightarrow> error + reg_t" where
  "readCell s loc k =
     (case segCells s (fst loc) of
        None \<Rightarrow> Inl OutOfBoundsAccess
      | Some cs \<Rightarrow>
          if snd loc + k < length cs then Inr (cs ! (snd loc + k)) else Inl OutOfBoundsAccess)"

definition writeCell :: "SegManager \<Rightarrow> nat \<times> nat \<Rightarrow> nat \<Rightarrow> reg_t \<Rightarrow> error + SegManager" where
  "writeCell s loc k v =
     (case segCells s (fst loc) of
        None \<Rightarrow> Inl OutOfBoundsAccess
      | Some cs \<Rightarrow>
          if snd loc + k < length cs
          then Inr (s\<lparr>heap := (heap s)[fst loc :=
                       map_option (setCellStorage (cs[snd loc + k := v])) (heap s ! fst loc)]\<rparr>)
          else Inl OutOfBoundsAccess)"

text \<open>
  A host pointer (\<^verbatim>\<open>const char *\<close>, \<^verbatim>\<open>const byte *\<close>) is either data of the caller, given
  with its terminator where it is a string, or the raw pointer of a view.
\<close>

datatype cptr = HostData "byte list" | HeapData "nat \<times> nat"

definition readPtr :: "SegManager \<Rightarrow> cptr \<Rightarrow> nat \<Rightarrow> error + byte" where
  "readPtr s src i =
     (case src of
        HostData bs \<Rightarrow> if i < length bs then Inr (bs ! i) else Inl OutOfBoundsAccess
      | HeapData loc \<Rightarrow> readRaw s loc i)"

subsection \<open>Characters in cell storage\<close>

definition getChar :: "SegManager \<Rightarrow> SegmentRef \<Rightarrow> nat \<Rightarrow> error + (SegManager \<times> byte)" where
  "getChar s ref offset0 =
     (let offset = (if skipByte ref then offset0 + 1 else offset0) in
      case ptr ref of
        None \<Rightarrow> Inl OutOfBoundsAccess
      | Some loc \<Rightarrow>
         (case readCell s loc (offset div 2) of
            Inl e \<Rightarrow> Inl e
          | Inr val \<Rightarrow>
             (let s1 = (if regSegment val \<noteq> 0
                           \<and> \<not> (regSegment val = 0xFFFF \<and> 1 < offset)
                        then warning WarnNonRawRead s else s);
                  oddOffset = (if isBE s then \<not> odd offset else odd offset)
              in Inr (s1, if oddOffset then ucast (drop_bit 8 (regOffset val))
                          else ucast (regOffset val AND 0xff)))))"

definition setChar :: "SegManager \<Rightarrow> SegmentRef \<Rightarrow> nat \<Rightarrow> byte \<Rightarrow> error + SegManager" where
  "setChar s ref offset0 v =
     (let offset = (if skipByte ref then offset0 + 1 else offset0) in
      case ptr ref of
        None \<Rightarrow> Inl OutOfBoundsAccess
      | Some loc \<Rightarrow>
         (case readCell s loc (offset div 2) of
            Inl e \<Rightarrow> Inl e
          | Inr val \<Rightarrow>
             (let oddOffset = (if isBE s then \<not> odd offset else odd offset);
                  newOffset = (if oddOffset
                               then (regOffset val AND 0x00ff) OR push_bit 8 (ucast v)
                               else (regOffset val AND 0xff00) OR ucast v)
              in writeCell s loc (offset div 2) (make_reg 0 newOffset))))"

subsection \<open>Copy loops\<close>

text \<open>
  \<^verbatim>\<open>forwardCopy<STRING>\<close>: the copy loop gives back the state, the number of bytes written
  and what is left of \<open>n\<close>; the padding loop then writes that many zero bytes, unless \<open>n\<close>
  was the sentinel \<^verbatim>\<open>0xFFFFFFFFU\<close>.
\<close>

function forwardCopy_loop ::
  "bool \<Rightarrow> SegManager \<Rightarrow> nat \<times> nat \<Rightarrow> cptr \<Rightarrow> nat \<Rightarrow> nat \<Rightarrow> error + (SegManager \<times> nat \<times> nat)" where
  "forwardCopy_loop STRING s dest src i n =
     (if n = 0 then Inr (s, i, 0)
      else
        (case readPtr s src i of
           Inl e \<Rightarrow> Inl e
         | Inr b \<Rightarrow>
            (case writeRaw s dest i b of
               Inl e \<Rightarrow> Inl e
             | Inr s1 \<Rightarrow>
                 if STRING \<and> b = 0 then Inr (s1, i + 1, n - 1)
                 else forwardCopy_loop STRING s1 dest src (i + 1) (n - 1))))"
  by pat_completeness auto
termination
  by (relation "measure (\<lambda>(STRING, s, dest, src, i, n). n)") auto

declare forwardCopy_loop.simps [simp del]

function zeroFill :: "SegManager \<Rightarrow> nat \<times> nat \<Rightarrow> nat \<Rightarrow> nat \<Rightarrow> error + SegManager" where
  "zeroFill s dest i n =
     (if n = 0 then Inr s
      else
        (case writeRaw s dest i 0 of
           Inl e \<Rightarrow> Inl e
         | Inr s1 \<Rightarrow> zeroFill s1 dest (i + 1) (n - 1)))"
  by pat_completeness auto
termination
  by (relation "measure (\<lambda>(s, dest, i, n). n)") auto

declare zeroFill.simps [simp del]

definition forwardCopy :: "bool \<Rightarrow> SegManager \<Rightarrow> nat \<times> nat \<Rightarrow> cptr \<Rightarrow> nat \<Rightarrow> error + SegManager" where
  "forwardCopy STRING s dest src n =
     (let zeroPad = (STRING \<and> n \<noteq> 0xFFFFFFFF) in
      case forwardCopy_loop STRING s dest src 0 n of
        Inl e \<Rightarrow> Inl e
      | Inr (s1, i, n1) \<Rightarrow> if zeroPad then zeroFill s1 dest i n1 else Inr s1)"

text \<open>
  The character loops of \<^verbatim>\<open>strncpy\<close> and \<^verbatim>\<open>memcpy\<close> share one shape,
  \<^verbatim>\<open>for (uint i = 0; i < n; i++) { c = read(i); write(i, c); if (!c) break; }\<close>, the
  \<^verbatim>\<open>break\<close> being present in \<^verbatim>\<open>strncpy\<close> only. Here \<open>rd\<close> and \<open>wr\<close> are the read and the
  write of the loop at hand and \<open>stop\<close> tells whether it has the \<^verbatim>\<open>break\<close>.
\<close>

function copy_loop ::
  "bool \<Rightarrow> (SegManager \<Rightarrow> nat \<Rightarrow> error + (SegManager \<times> byte))
   \<Rightarrow> (SegManager \<Rightarrow> nat \<Rightarrow> byte \<Rightarrow> error + SegManager)
   \<Rightarrow> SegManager \<Rightarrow> nat \<Rightarrow> nat \<Rightarrow> error + SegManager" where
  "copy_loop stop rd wr s i n =
     (if i < n
      then (case rd s i of
              Inl e \<Rightarrow> Inl e
            | Inr (s1, c) \<Rightarrow>
               (case wr s1 i c of
                  Inl e \<Rightarrow> Inl e
                | Inr s2 \<Rightarrow>
                    if stop \<and> c = 0 then Inr s2 else copy_loop stop rd wr s2 (i + 1) n))
      else Inr s)"
  by pat_completeness auto
termination
  by (relation "measure (\<lambda>(stop, rd, wr, s, i, n). n - i)") auto

declare copy_loop.simps [simp del]

definition rdPtr :: "cptr \<Rightarrow> SegManager \<Rightarrow> nat \<Rightarrow> error + (SegManager \<times> byte)" where
  "rdPtr src s i = (case readPtr s src i of Inl e \<Rightarrow> Inl e | Inr b \<Rightarrow> Inr (s, b))"

text \<open>The conversions the source applies to a length: \<^verbatim>\<open>(int)n\<close> keeps the low 32 bits
  as a signed value, \<^verbatim>\<open>(size_t)maxSize\<close> and \<^verbatim>\<open>(uint)maxSize\<close> wrap a negative bound.\<close>

definition int_of_size_t :: "nat \<Rightarrow> int" where
  "int_of_size_t n = sint (word_of_nat n :: 32 word)"

definition size_t_of_int :: "int \<Rightarrow> nat" where
  "size_t_of_int i = nat (i mod 2 ^ 64)"

definition uint_of_int :: "int \<Rightarrow> nat" where
  "uint_of_int i = nat (i mod 2 ^ 32)"

subsection \<open>String copy\<close>

definition strncpy_cstr :: "SegManager \<Rightarrow> reg_t \<Rightarrow> cptr \<Rightarrow> nat \<Rightarrow> error + SegManager" where
  "strncpy_cstr s dest src n =
     (let (s1, dest_r) = dereference s dest in
      if \<not> isValid dest_r then Inr (warning (WarnStrncpyToInvalid dest) s1)
      else if isRaw dest_r
      then (case ptr dest_r of
              None \<Rightarrow> Inl OutOfBoundsAccess
            | Some loc \<Rightarrow> forwardCopy True s1 loc src n)
      else (case copy_loop True (rdPtr src) (\<lambda>t. setChar t dest_r) s1 0 n of
              Inl e \<Rightarrow> Inl e
            | Inr s2 \<Rightarrow>
                if n < size_t_of_int (maxSize dest_r) then setChar s2 dest_r n 0 else Inr s2))"

definition strcpy_cstr :: "SegManager \<Rightarrow> reg_t \<Rightarrow> cptr \<Rightarrow> error + SegManager" where
  "strcpy_cstr s dest src = strncpy_cstr s dest src 0xFFFFFFFF"

definition strncpy_reg :: "SegManager \<Rightarrow> reg_t \<Rightarrow> reg_t \<Rightarrow> nat \<Rightarrow> error + SegManager" where
  "strncpy_reg s dest src n =
     (if isNull src
      then (if 0 < n then strcpy_cstr s dest (HostData [0]) else Inr s)
      else
        (let (s1, dest_r) = dereference s dest;
             (s2, src_r) = dereference s1 src
         in if \<not> isValid src_r
            then (let s3 = warning (WarnStrncpyFromInvalid src) s2
                  in if 0 < n then strcpy_cstr s3 dest (HostData [0]) else Inr s3)
            else if \<not> isValid dest_r then Inr (warning (WarnStrncpyToInvalid dest) s2)
            else if isRaw src_r
            then (case ptr src_r of
                    None \<Rightarrow> Inl OutOfBoundsAccess
                  | Some loc \<Rightarrow> strncpy_cstr s2 dest (HeapData loc) n)
            else if isRaw dest_r \<and> \<not> isRaw src_r
            then (case ptr dest_r of
                    None \<Rightarrow> Inl OutOfBoundsAccess
                  | Some loc \<Rightarrow>
                      copy_loop True (\<lambda>t. getChar t src_r) (\<lambda>t. writeRaw t loc) s2 0 n)
            else copy_loop True (\<lambda>t. getChar t src_r) (\<lambda>t. setChar t dest_r) s2 0 n))"

definition strcpy_reg :: "SegManager \<Rightarrow> reg_t \<Rightarrow> reg_t \<Rightarrow> error + SegManager" where
  "strcpy_reg s dest src = strncpy_reg s dest src 0xFFFFFFFF"

subsection \<open>Byte copy\<close>

definition memcpy_from_ptr :: "SegManager \<Rightarrow> reg_t \<Rightarrow> cptr \<Rightarrow> nat \<Rightarrow> error + SegManager" where
  "memcpy_from_ptr s dest src n =
     (let (s1, dest_r) = dereference s dest in
      if \<not> isValid dest_r then Inr (warning (WarnMemcpyToInvalid dest) s1)
      else if maxSize dest_r < int_of_size_t n then Inr (warning (WarnBeyondEnd dest) s1)
      else if isRaw dest_r
      then (case ptr dest_r of
              None \<Rightarrow> Inl OutOfBoundsAccess
            | Some loc \<Rightarrow> forwardCopy False s1 loc src n)
      else copy_loop False (rdPtr src) (\<lambda>t. setChar t dest_r) s1 0 n)"

text \<open>The overload that copies out of the heap is only ever handed the raw pointer of
  a view in these sources, so its destination is a place in the heap.\<close>

definition memcpy_to_ptr :: "SegManager \<Rightarrow> nat \<times> nat \<Rightarrow> reg_t \<Rightarrow> nat \<Rightarrow> error + SegManager" where
  "memcpy_to_ptr s dest src n =
     (let (s1, src_r) = dereference s src in
      if \<not> isValid src_r then Inr (warning (WarnMemcpyFromInvalid src) s1)
      else if maxSize src_r < int_of_size_t n then Inr (warning (WarnBeyondEnd src) s1)
      else if isRaw src_r
      then (case ptr src_r of
              None \<Rightarrow> Inl OutOfBoundsAccess
            | Some loc \<Rightarrow> forwardCopy False s1 dest (HeapData loc) n)
      else copy_loop False (\<lambda>t. getChar t src_r) (\<lambda>t. writeRaw t dest) s1 0 n)"

definition memcpy_reg :: "SegManager \<Rightarrow> reg_t \<Rightarrow> reg_t \<Rightarrow> nat \<Rightarrow> error + SegManager" where
  "memcpy_reg s dest src n =
     (let (s1, dest_r) = dereference s dest;
          (s2, src_r) = dereference s1 src
      in if \<not> isValid dest_r then Inr (warning (WarnMemcpyToInvalid dest) s2)
         else if maxSize dest_r < int_of_size_t n then Inr (warning (WarnBeyondEnd dest) s2)
         else if \<not> isValid src_r then Inr (warning (WarnMemcpyFromInvalid src) s2)
         else if maxSize src_r < int_of_size_t n then Inr (warning (WarnBeyondEnd src) s2)
         else if isRaw src_r
         then (case ptr src_r of
                 None \<Rightarrow> Inl OutOfBoundsAccess
               | Some loc \<Rightarrow> memcpy_from_ptr s2 dest (HeapData loc) n)
         else if isRaw dest_r
         then (case ptr dest_r of
                 None \<Rightarrow> Inl OutOfBoundsAccess
               | Some loc \<Rightarrow> memcpy_to_ptr s2 loc src n)
         else copy_loop False (\<lambda>t. getChar t src_r) (\<lambda>t. setChar t dest_r) s2 0 n)"

subsection \<open>Reading a string\<close>

text \<open>
  Modelled from the spec: \<^verbatim>\<open>Common::strnlen\<close> is a library routine outside the sources
  at hand; it scans up to the bound and does not assume a terminator within it.
\<close>

function strnlen :: "SegManager \<Rightarrow> nat \<times> nat \<Rightarrow> nat \<Rightarrow> nat \<Rightarrow> error + nat" where
  "strnlen s loc counter bound =
     (if counter < bound
      then (case readRaw s loc counter of
              Inl e \<Rightarrow> Inl e
            | Inr b \<Rightarrow> if b \<noteq> 0 then strnlen s loc (counter + 1) bound else Inr counter)
      else Inr counter)"
  by pat_completeness auto
termination
  by (relation "measure (\<lambda>(s, loc, counter, bound). bound - counter)") auto

declare strnlen.simps [simp del]

function getString_loop ::
  "SegManager \<Rightarrow> SegmentRef \<Rightarrow> nat \<Rightarrow> nat \<Rightarrow> byte list \<Rightarrow> error + (SegManager \<times> byte list)" where
  "getString_loop s src_r i bound ret =
     (if i < bound
      then (case getChar s src_r i of
              Inl e \<Rightarrow> Inl e
            | Inr (s1, c) \<Rightarrow>
                if c = 0 then Inr (s1, ret)
                else getString_loop s1 src_r (i + 1) bound (ret @ [c]))
      else Inr (s, ret))"
  by pat_completeness auto
termination
  by (relation "measure (\<lambda>(s, src_r, i, bound, ret). bound - i)") auto

declare getString_loop.simps [simp del]

definition getString :: "SegManager \<Rightarrow> reg_t \<Rightarrow> error + (SegManager \<times> byte list)" where
  "getString s pointer =
     (if isNull pointer then Inr (s, [])
      else
        (let (s1, src_r) = dereference s pointer in
         if \<not> isValid src_r then Inr (warning (WarnGetStringInvalid pointer) s1, [])
         else if isRaw src_r
         then (case ptr src_r of
                 None \<Rightarrow> Inl OutOfBoundsAccess
               | Some loc \<Rightarrow>
                  (case strnlen s1 loc 0 (size_t_of_int (maxSize src_r)) of
                     Inl e \<Rightarrow> Inl e
                   | Inr len \<Rightarrow>
                      (case segBytes s1 (fst loc) of
                         None \<Rightarrow> Inl OutOfBoundsAccess
                       | Some bs \<Rightarrow> Inr (s1, take len (drop (snd loc) bs)))))
         else getString_loop s1 src_r 0 (uint_of_int (maxSize src_r)) []))"


section \<open>Script lifecycle\<close>


definition decrementLockers :: "Script \<Rightarrow> Script" where
  "decrementLockers scr =
     (if 0 < scr_lockers scr then scr\<lparr>scr_lockers := scr_lockers scr - 1\<rparr> else scr)"

definition markDeleted :: "Script \<Rightarrow> Script" where
  "markDeleted scr = scr\<lparr>scr_markedAsDeleted := True\<rparr>"

text \<open>A \<^verbatim>\<open>Script *\<close> is the slot that holds the script: reading through it looks the slot
  up, writing through it replaces the script in the slot.\<close>

definition scriptAt :: "SegManager \<Rightarrow> nat \<Rightarrow> Script option" where
  "scriptAt s slot =
     (if slot < length (heap s)
      then (case heap s ! slot of Some (SegScript scr) \<Rightarrow> Some scr | _ \<Rightarrow> None)
      else None)"

definition putScript :: "SegManager \<Rightarrow> nat \<Rightarrow> Script \<Rightarrow> SegManager" where
  "putScript s slot scr = s\<lparr>heap := (heap s)[slot := Some (SegScript scr)]\<rparr>"

subsection \<open>Loading\<close>






subsection \<open>Instantiating\<close>



subsection \<open>Uninstantiating\<close>

text \<open>
  Modelled from the spec: the block-type constants, the 16-bit read macro and the magic
  offset are defined outside the sources at hand. The older generation stores a 16-bit
  value low byte first; the object and class block types are 1 and 6; the walk steps 8
  bytes over the magic header of an object and the magic offset steps the same 8 bytes
  back. A read outside the script's buffer is undefined behaviour in C++ and stops the
  model with \<open>OutOfBoundsAccess\<close>.
\<close>

definition SCI_OBJ_OBJECT :: uint16 where
  "SCI_OBJ_OBJECT = 1"

definition SCI_OBJ_CLASS :: uint16 where
  "SCI_OBJ_CLASS = 6"

definition SCRIPT_OBJECT_MAGIC_OFFSET :: uint16 where
  "SCRIPT_OBJECT_MAGIC_OFFSET = - 8"

definition READ_SCI11ENDIAN_UINT16 :: "byte list \<Rightarrow> nat \<Rightarrow> error + uint16" where
  "READ_SCI11ENDIAN_UINT16 buf off =
     (if off + 1 < length buf
      then Inr (ucast (buf ! off) OR push_bit 8 (ucast (buf ! (off + 1))))
      else Inl OutOfBoundsAccess)"

text \<open>
  The pass of \<^verbatim>\<open>uninstantiateScriptSci0\<close> over the blocks of a script. Each round of the
  \<^verbatim>\<open>while (true)\<close> loop takes one unit of fuel; \<open>rec\<close> is the call back into
  \<^verbatim>\<open>uninstantiateScript\<close>. The pointer \<^verbatim>\<open>reg\<close> is its 16-bit offset, which wraps; the
  offsets handed to \<^verbatim>\<open>getBuf\<close> are computed in \<^verbatim>\<open>int\<close> and do not.
\<close>

primrec sci0_walk ::
  "nat \<Rightarrow> (SegManager \<Rightarrow> int \<Rightarrow> (error + SegManager) option) \<Rightarrow> SegManager \<Rightarrow> int \<Rightarrow> nat
   \<Rightarrow> uint16 \<Rightarrow> uint16 \<Rightarrow> (error + SegManager) option" where
  "sci0_walk 0 rec s script_nr slot reg objLength = None"
| "sci0_walk (Suc fuel) rec s script_nr slot reg objLength =
     (let reg1 = reg + objLength in
      case scriptAt s slot of
        None \<Rightarrow> Some (Inl OutOfBoundsAccess)
      | Some scr \<Rightarrow>
         (case READ_SCI11ENDIAN_UINT16 (scr_buf scr) (unat reg1) of
            Inl e \<Rightarrow> Some (Inl e)
          | Inr objType \<Rightarrow>
             if objType = 0 then Some (Inr s)
             else
               (case READ_SCI11ENDIAN_UINT16 (scr_buf scr) (unat reg1 + 2) of
                  Inl e \<Rightarrow> Some (Inl e)
                | Inr objLength1 \<Rightarrow>
                   (let reg2 = reg1 + 4 in
                    if objType = SCI_OBJ_OBJECT \<or> objType = SCI_OBJ_CLASS
                    then
                      (let reg3 = reg2 + 8 in
                       case READ_SCI11ENDIAN_UINT16 (scr_buf scr) (unat reg3 + 2) of
                         Inl e \<Rightarrow> Some (Inl e)
                       | Inr superclass \<Rightarrow>
                          (case (if 0 \<le> sint superclass
                                 then (if unat superclass < length (classTable s)
                                       then (let superclass_script =
                                                   class_script (classTable s ! unat superclass)
                                             in if superclass_script = script_nr
                                                then Some (Inr (if scr_lockers scr \<noteq> 0
                                                                then putScript s slot (decrementLockers scr)
                                                                else s))
                                                else rec s superclass_script)
                                       else Some (Inl AssertionFailed))
                                 else Some (Inr s)) of
                             None \<Rightarrow> None
                           | Some (Inl e) \<Rightarrow> Some (Inl e)
                           | Some (Inr s1) \<Rightarrow>
                               sci0_walk fuel rec s1 script_nr slot
                                 (reg3 + SCRIPT_OBJECT_MAGIC_OFFSET + (- 4)) objLength1))
                    else sci0_walk fuel rec s script_nr slot (reg2 + (- 4)) objLength1))))"

definition uninstantiateScriptSci0 ::
  "nat \<Rightarrow> (SegManager \<Rightarrow> int \<Rightarrow> (error + SegManager) option) \<Rightarrow> SegManager \<Rightarrow> int
   \<Rightarrow> (error + SegManager) option" where
  "uninstantiateScriptSci0 fuel rec s script_nr =
     (let oldScriptHeader = (sciVersion s = SCI_VERSION_0_EARLY);
          segmentId = getScriptSegment s script_nr
      in case getScript s segmentId of
           Inl e \<Rightarrow> Some (Inl e)
         | Inr scr \<Rightarrow>
             sci0_walk fuel rec s script_nr (unat (getActualSegment s segmentId))
               (if oldScriptHeader then 2 else 0) 0)"

text \<open>
  \<^verbatim>\<open>uninstantiateScript\<close> and the pass over the blocks call each other; nothing bounds
  the chain, so both run on fuel and \<open>None\<close> stands for a call that does not return.
\<close>

primrec uninstantiateScript :: "nat \<Rightarrow> SegManager \<Rightarrow> int \<Rightarrow> (error + SegManager) option" where
  "uninstantiateScript 0 s script_nr = None"
| "uninstantiateScript (Suc fuel) s script_nr =
     (let segmentId = getScriptSegment s script_nr in
      case getScriptIfLoaded s segmentId of
        None \<Rightarrow> Some (Inr s)
      | Some scr \<Rightarrow>
          if scr_markedAsDeleted scr then Some (Inr s)
          else
            (let slot = unat (getActualSegment s segmentId);
                 s1 = putScript s slot (decrementLockers scr)
             in if 0 < scr_lockers (decrementLockers scr) then Some (Inr s1)
                else
                  (let s2 = s1\<lparr>classTable :=
                               map (\<lambda>c. if regSegment (class_reg c) = segmentId
                                         then c\<lparr>class_reg := NULL_REG\<rparr> else c)
                                   (classTable s1)\<rparr>
                   in case (if versionRank (sciVersion s2) < versionRank SCI_VERSION_1_1
                            then uninstantiateScriptSci0 fuel (uninstantiateScript fuel) s2 script_nr
                            else Some (Inr s2)) of
                        None \<Rightarrow> None
                      | Some (Inl e) \<Rightarrow> Some (Inl e)
                      | Some (Inr s3) \<Rightarrow>
                         (case scriptAt s3 slot of
                            None \<Rightarrow> Some (Inl OutOfBoundsAccess)
                          | Some scr3 \<Rightarrow>
                              if scr_lockers scr3 = 0
                              then Some (Inr (warning (DebugUnloaded script_nr)
                                               (putScript s3 slot (markDeleted scr3))))
                              else Some (Inr s3)))))"





section \<open>Observing a script\<close>

text \<open>The locker count and the marked-deleted flag of the script registered under a
  script number, \<open>None\<close> when no script is loaded under it.\<close>

definition scriptState :: "SegManager \<Rightarrow> int \<Rightarrow> (nat \<times> bool) option" where
  "scriptState s script_nr =
     map_option (\<lambda>scr. (scr_lockers scr, scr_markedAsDeleted scr))
       (getScriptIfLoaded s (getScriptSegment s script_nr))"



section \<open>Observing memory\<close>

text \<open>Replacing the bytes, or the cells, a segment owns.\<close>

definition putBytes :: "SegManager \<Rightarrow> nat \<Rightarrow> byte list \<Rightarrow> SegManager" where
  "putBytes s seg bs =
     s\<lparr>heap := (heap s)[seg := map_option (setRawStorage bs) (heap s ! seg)]\<rparr>"

definition putCells :: "SegManager \<Rightarrow> nat \<Rightarrow> reg_t list \<Rightarrow> SegManager" where
  "putCells s seg cs =
     s\<lparr>heap := (heap s)[seg := map_option (setCellStorage cs) (heap s ! seg)]\<rparr>"

text \<open>A run of bytes written over a list from a position on.\<close>

definition overwrite :: "nat \<Rightarrow> 'a list \<Rightarrow> 'a list \<Rightarrow> 'a list" where
  "overwrite k xs ys = take k ys @ xs @ drop (k + length xs) ys"

text \<open>
  The bytes a cell store holds, in the order \<^verbatim>\<open>getChar\<close> reads them: byte \<open>j\<close> is a half of
  cell \<open>j div 2\<close>, the half chosen by the parity of \<open>j\<close> and the byte order.
\<close>

definition charOfCell :: "bool \<Rightarrow> reg_t \<Rightarrow> bool \<Rightarrow> byte" where
  "charOfCell be val oddIndex =
     (if (if be then \<not> oddIndex else oddIndex)
      then ucast (drop_bit 8 (regOffset val))
      else ucast (regOffset val AND 0xff))"

definition setCharOfCell :: "bool \<Rightarrow> reg_t \<Rightarrow> bool \<Rightarrow> byte \<Rightarrow> reg_t" where
  "setCharOfCell be val oddIndex v =
     make_reg 0
       (if (if be then \<not> oddIndex else oddIndex)
        then (regOffset val AND 0x00ff) OR push_bit 8 (ucast v)
        else (regOffset val AND 0xff00) OR ucast v)"

definition cellChars :: "bool \<Rightarrow> reg_t list \<Rightarrow> byte list" where
  "cellChars be cs = map (\<lambda>j. charOfCell be (cs ! (j div 2)) (odd j)) [0..<2 * length cs]"

fun setChars :: "bool \<Rightarrow> nat \<Rightarrow> byte list \<Rightarrow> reg_t list \<Rightarrow> reg_t list" where
  "setChars be j [] cs = cs"
| "setChars be j (v # vs) cs =
     setChars be (Suc j) vs (cs[j div 2 := setCharOfCell be (cs ! (j div 2)) (odd j) v])"

text \<open>The bytes of a segment as a copy routine sees them, and the position in them at
  which a view starts.\<close>

definition segChars :: "SegManager \<Rightarrow> nat \<Rightarrow> byte list option" where
  "segChars s seg =
     (case segBytes s seg of
        Some bs \<Rightarrow> Some bs
      | None \<Rightarrow> map_option (cellChars (isBE s)) (segCells s seg))"

definition viewSegment :: "SegmentRef \<Rightarrow> nat" where
  "viewSegment r = (case ptr r of Some (seg, base) \<Rightarrow> seg | None \<Rightarrow> 0)"

definition viewStart :: "SegmentRef \<Rightarrow> nat" where
  "viewStart r =
     (case ptr r of
        Some (seg, base) \<Rightarrow>
          if isRaw r then base else 2 * base + (if skipByte r then 1 else 0)
      | None \<Rightarrow> 0)"


section \<open>Construction and example states\<close>

text \<open>The constructor leaves the sentinel slot 0 in the directory and builds the class
  table from the class index, one owning script number per class.\<close>

definition noImage :: ScriptImage where
  "noImage = \<lparr>img_buf = [], img_locals = 0, img_classes = []\<rparr>"

definition SegManager_new :: "SciVersion \<Rightarrow> bool \<Rightarrow> (int \<Rightarrow> ScriptImage) \<Rightarrow> int list \<Rightarrow> SegManager" where
  "SegManager_new v be loader classIndex =
     \<lparr>heap = [None], scriptSegMap = Map.empty,
      classTable = map (\<lambda>scriptNr. \<lparr>class_script = scriptNr, class_reg = NULL_REG\<rparr>) classIndex,
      sciVersion = v, isBE = be, resMan = loader, diagnostics = []\<rparr>"

definition sci3_example :: SegManager where
  "sci3_example = (SegManager_new SCI_VERSION_3 False (\<lambda>n. noImage) [])\<lparr>heap := [None, Some (SegDynMem [0, 0])]\<rparr>"

definition fresh_example :: SegManager where
  "fresh_example = SegManager_new SCI_VERSION_0_LATE False (\<lambda>n. noImage) []"

definition locals_example :: SegManager where
  "locals_example = fresh_example\<lparr>heap := [None, Some (SegLocals [make_reg 0 0x6968, make_reg 0 0]),
       Some (SegDynMem [0x61, 0x62, 0])]\<rparr>"

text \<open>
  A class block of the older script format, 16 bytes long: the block type 6 and the
  block length, the 8 bytes of magic header, the species selector and the superclass
  selector, each 16-bit value low byte first.
\<close>

definition sci0_class_block :: "uint16 \<Rightarrow> byte list" where
  "sci0_class_block superclass =
     [6, 0, 16, 0, 0x34, 0x12, 0, 0, 0, 0, 0, 0, 0, 0,
      ucast superclass, ucast (drop_bit 8 superclass)]"







text \<open>A fresh manager whose loader knows one script, number 5: a root class, two local
  variables. Once for the older generation, once for generation 1.1.\<close>

definition loader_example :: "int \<Rightarrow> ScriptImage" where
  "loader_example n =
     (if n = 5
      then \<lparr>img_buf = sci0_class_block (- 1) @ [0, 0], img_locals = 2, img_classes = [(0, 4)]\<rparr>
      else noImage)"

definition old_example :: SegManager where
  "old_example = SegManager_new SCI_VERSION_0_LATE False loader_example [5]"



section \<open>The directory\<close>

lemma findFreeSegment_loop_ge: "seg \<le> findFreeSegment_loop h seg"
proof (induction h seg rule: findFreeSegment_loop.induct)
  case (1 h seg)
  show ?case
  proof (cases "seg < length h \<and> h ! seg \<noteq> None")
    case True
    with "1" have "Suc seg \<le> findFreeSegment_loop h (Suc seg)" by simp
    with True show ?thesis by (subst findFreeSegment_loop.simps) auto
  next
    case False
    then show ?thesis by (subst findFreeSegment_loop.simps) auto
  qed
qed

lemma findFreeSegment_loop_unique:
  "seg \<le> r \<Longrightarrow> r \<le> length h \<Longrightarrow> (r < length h \<Longrightarrow> h ! r = None)
   \<Longrightarrow> (\<And>i. seg \<le> i \<Longrightarrow> i < r \<Longrightarrow> h ! i \<noteq> None)
   \<Longrightarrow> findFreeSegment_loop h seg = r"
proof (induction "r - seg" arbitrary: seg)
  case 0
  then have "seg = r" by simp
  with 0 show ?case by (subst findFreeSegment_loop.simps) auto
next
  case (Suc k)
  then have lt: "seg < r" by simp
  with Suc.prems have occ: "seg < length h \<and> h ! seg \<noteq> None" by auto
  have "findFreeSegment_loop h (Suc seg) = r"
    using Suc.hyps(2) lt Suc.prems by (intro Suc.hyps(1)) auto
  with occ show ?case by (subst findFreeSegment_loop.simps) simp
qed

lemma findFreeSegment_loop_props:
  "seg \<le> length h \<Longrightarrow>
   findFreeSegment_loop h seg \<le> length h
   \<and> (findFreeSegment_loop h seg < length h \<longrightarrow> h ! findFreeSegment_loop h seg = None)
   \<and> (\<forall>i. seg \<le> i \<and> i < findFreeSegment_loop h seg \<longrightarrow> h ! i \<noteq> None)"
proof (induction h seg rule: findFreeSegment_loop.induct)
  case (1 h seg)
  show ?case
  proof (cases "seg < length h \<and> h ! seg \<noteq> None")
    case True
    then have eq: "findFreeSegment_loop h seg = findFreeSegment_loop h (Suc seg)"
      by (subst findFreeSegment_loop.simps) simp
    from True have "Suc seg \<le> length h" by simp
    with "1.IH" True have ih: "findFreeSegment_loop h (Suc seg) \<le> length h
   \<and> (findFreeSegment_loop h (Suc seg) < length h \<longrightarrow> h ! findFreeSegment_loop h (Suc seg) = None)
   \<and> (\<forall>i. Suc seg \<le> i \<and> i < findFreeSegment_loop h (Suc seg) \<longrightarrow> h ! i \<noteq> None)"
      by blast
    show ?thesis unfolding eq using ih True
      by (metis Suc_leI le_neq_implies_less)
  next
    case False
    then have eq: "findFreeSegment_loop h seg = seg"
      by (subst findFreeSegment_loop.simps) auto
    show ?thesis unfolding eq using False "1.prems" by auto
  qed
qed

text \<open>What one allocation does, in terms of the first free slot.\<close>

lemma allocSegment_result:
  assumes ne: "heap s \<noteq> []" and small: "length (heap s) < 65536"
  shows "allocSegment s (Some m) =
           Inr (s\<lparr>heap := (if findFreeSegment_loop (heap s) 1 < length (heap s)
                            then (heap s)[findFreeSegment_loop (heap s) 1 := Some m]
                            else heap s @ [Some m])\<rparr>,
                word_of_nat (findFreeSegment_loop (heap s) 1))
         \<and> unat (word_of_nat (findFreeSegment_loop (heap s) 1) :: SegmentId)
             = findFreeSegment_loop (heap s) 1
         \<and> 1 \<le> findFreeSegment_loop (heap s) 1"
proof -
  define r where "r = findFreeSegment_loop (heap s) 1"
  from ne have one: "1 \<le> length (heap s)" by (cases "heap s") auto
  from findFreeSegment_loop_props [OF one] have le: "r \<le> length (heap s)"
    by (simp add: r_def)
  with small have r16: "r < 65536" by simp
  then have u: "unat (word_of_nat r :: SegmentId) = r"
    by (simp add: unat_of_nat)
  have ge: "1 \<le> r" unfolding r_def by (rule findFreeSegment_loop_ge)
  have ff: "findFreeSegment s = Inr (word_of_nat r)"
    using r16 by (simp add: findFreeSegment_def r_def Let_def)
  have "allocSegment s (Some m) =
           Inr (s\<lparr>heap := (if r < length (heap s) then (heap s)[r := Some m]
                            else heap s @ [Some m])\<rparr>, word_of_nat r)"
  proof (cases "r < length (heap s)")
    case True
    then show ?thesis by (simp add: allocSegment_def ff u)
  next
    case False
    with le have "r = length (heap s)" by simp
    with u have "unat (word_of_nat (length (heap s)) :: SegmentId) = length (heap s)" by simp
    with \<open>r = length (heap s)\<close> show ?thesis by (simp add: allocSegment_def ff)
  qed
  with u ge show ?thesis unfolding r_def by simp
qed

lemma getActualSegment_idem:
  "getActualSegment s (getActualSegment s seg) = getActualSegment s seg"
  by (simp add: getActualSegment_def word_bw_assocs)


lemma mask14_numeral: "(mask 14 :: SegmentId) = 0x3FFF"
  by (simp add: mask_numeral)

lemma mask14_small:
  fixes w :: SegmentId
  assumes "unat w < 16384"
  shows "w AND 0x3FFF = w"
proof -
  have "unat w < 2 ^ 14" using assms by simp
  then have "w < 2 ^ 14" by (simp add: word_less_nat_alt)
  then have "w AND mask 14 = w" by (rule less_mask_eq)
  then show ?thesis by (simp only: mask14_numeral)
qed

lemma deallocate_plain:
  assumes a: "unat seg < 16384" and pos: "1 \<le> unat seg" and inr: "unat seg < length (heap s)"
    and occ: "heap s ! unat seg = Some m"
    and nolocals: "\<forall>scr. m = SegScript scr \<longrightarrow> scr_localsSegment scr = 0"
  shows "\<exists>s'. deallocate (Suc fuel) s seg = Some (Inr s')
              \<and> heap s' = (heap s)[unat seg := None]"
proof -
  have act: "getActualSegment s seg = seg"
    using mask14_small [OF a] by (simp add: getActualSegment_def)
  from pos have nz: "seg \<noteq> 0" by auto
  show ?thesis
  proof (cases m)
    case (SegScript scr)
    with nolocals have "scr_localsSegment scr = 0" by simp
    with SegScript show ?thesis using act nz inr occ by simp
  qed (use act nz inr occ in simp_all)
qed






text \<open>
  C9. Allocation scans from identifier 1 for the first empty slot and grows the
  directory by one slot only when none is free; after two allocations, freeing the
  first identifier makes the next allocation return that identifier again, and the
  directory does not grow.
\<close>

theorem C9_allocSegment_reuse:
  assumes ne: "heap s \<noteq> []" and small: "length (heap s) < 16383"
    and nolocals: "\<forall>scr. m1 = SegScript scr \<longrightarrow> scr_localsSegment scr = 0"
  shows "\<exists>s1 id1 s2 id2 s3 s4.
           allocSegment s (Some m1) = Inr (s1, id1)
         \<and> 1 \<le> unat id1
         \<and> (\<forall>i. 1 \<le> i \<and> i < unat id1 \<longrightarrow> i < length (heap s) \<and> heap s ! i \<noteq> None)
         \<and> (unat id1 < length (heap s) \<longrightarrow>
               heap s ! unat id1 = None \<and> heap s1 = (heap s)[unat id1 := Some m1])
         \<and> (\<not> unat id1 < length (heap s) \<longrightarrow>
               unat id1 = length (heap s) \<and> heap s1 = heap s @ [Some m1])
         \<and> allocSegment s1 (Some m2) = Inr (s2, id2) \<and> id2 \<noteq> id1
         \<and> deallocate 1 s2 id1 = Some (Inr s3)
         \<and> allocSegment s3 (Some m3) = Inr (s4, id1)
         \<and> length (heap s4) = length (heap s2)"
proof -
  define h where "h = heap s"
  define r1 where "r1 = findFreeSegment_loop h 1"
  define h1 where "h1 = (if r1 < length h then h[r1 := Some m1] else h @ [Some m1])"
  define s1 where "s1 = s\<lparr>heap := h1\<rparr>"
  define r2 where "r2 = findFreeSegment_loop h1 1"
  define h2 where "h2 = (if r2 < length h1 then h1[r2 := Some m2] else h1 @ [Some m2])"
  define s2 where "s2 = s1\<lparr>heap := h2\<rparr>"
  from ne have one: "1 \<le> length h" by (cases "heap s") (auto simp: h_def)
  have small': "length (heap s) < 65536" using small by simp
  have A1: "allocSegment s (Some m1) = Inr (s1, word_of_nat r1)"
    "unat (word_of_nat r1 :: SegmentId) = r1" "1 \<le> r1"
    using allocSegment_result [OF ne small', of m1] by (simp_all add: h_def r1_def h1_def s1_def)
  have p1: "r1 \<le> length h" "r1 < length h \<longrightarrow> h ! r1 = None"
    "\<forall>i. 1 \<le> i \<and> i < r1 \<longrightarrow> h ! i \<noteq> None"
    using findFreeSegment_loop_props [OF one] by (simp_all add: r1_def)
  have len1: "length h1 \<le> Suc (length h)" "length h \<le> length h1" by (simp_all add: h1_def)
  have r1in: "r1 < length h1" using p1(1) by (auto simp: h1_def)
  have at1: "h1 ! r1 = Some m1" using p1(1) by (auto simp: h1_def nth_append)
  have keep1: "\<And>i. i < length h \<Longrightarrow> h ! i \<noteq> None \<Longrightarrow> h1 ! i \<noteq> None"
    by (auto simp: h1_def nth_append nth_list_update)
  have ne1: "heap s1 \<noteq> []" using r1in by (auto simp: s1_def)
  have small1: "length (heap s1) < 65536" using len1 small by (simp add: s1_def h_def)
  have hs1: "heap s1 = h1" by (simp add: s1_def)
  have A2: "allocSegment s1 (Some m2) = Inr (s2, word_of_nat r2)"
    "unat (word_of_nat r2 :: SegmentId) = r2"
    using allocSegment_result [OF ne1 small1, of m2] by (simp_all add: hs1 r2_def h2_def s2_def)
  have one1: "1 \<le> length h1" using one len1 by simp
  have p2: "r2 \<le> length h1" "r2 < length h1 \<longrightarrow> h1 ! r2 = None"
    using findFreeSegment_loop_props [OF one1] by (simp_all add: r2_def)
  have neq: "r2 \<noteq> r1" using p2(2) r1in at1 by auto
  have idneq: "(word_of_nat r2 :: SegmentId) \<noteq> word_of_nat r1"
    using neq A1(2) A2(2) by metis
  have r1in2: "r1 < length h2" using r1in by (auto simp: h2_def)
  have at2: "h2 ! r1 = Some m1" using at1 neq r1in by (auto simp: h2_def nth_append)
  have keep2: "\<And>i. i < length h1 \<Longrightarrow> h1 ! i \<noteq> None \<Longrightarrow> h2 ! i \<noteq> None"
    by (auto simp: h2_def nth_append nth_list_update)
  have hs2: "heap s2 = h2" by (simp add: s2_def)
  have r1small: "unat (word_of_nat r1 :: SegmentId) < 16384"
    using A1(2) p1(1) small by (simp add: h_def)
  obtain s3 where D: "deallocate (Suc 0) s2 (word_of_nat r1) = Some (Inr s3)"
    and hs3: "heap s3 = h2[r1 := None]"
    using deallocate_plain [of "word_of_nat r1" s2 m1 0] r1small A1(2) A1(3) r1in2 at2 nolocals hs2
    by auto
  define h3 where "h3 = h2[r1 := None]"
  have ne3: "heap s3 \<noteq> []" using r1in2 by (auto simp: hs3)
  have len2: "length h2 \<le> Suc (length h1)" by (simp add: h2_def)
  have small3: "length (heap s3) < 65536" using len1 len2 small by (simp add: hs3 h_def)
  have occ3: "\<And>i. 1 \<le> i \<Longrightarrow> i < r1 \<Longrightarrow> h2[r1 := None] ! i \<noteq> None"
  proof -
    fix i assume i: "1 \<le> i" "i < r1"
    with p1 have "i < length h" "h ! i \<noteq> None" by auto
    then have "h1 ! i \<noteq> None" "i < length h1" using keep1 len1 by auto
    then have "h2 ! i \<noteq> None" using keep2 by auto
    with i show "h2[r1 := None] ! i \<noteq> None" by simp
  qed
  have r3: "findFreeSegment_loop (heap s3) 1 = r1"
    unfolding hs3
    by (rule findFreeSegment_loop_unique) (use A1(3) r1in2 occ3 in auto)
  have A3: "allocSegment s3 (Some m3) = Inr (s3\<lparr>heap := if r1 < length (heap s3) then (heap s3)[r1 := Some m3]
                 else heap s3 @ [Some m3]\<rparr>, word_of_nat r1)"
    using allocSegment_result [OF ne3 small3, of m3, unfolded r3] by simp
  have lenfin: "length (heap (s3\<lparr>heap := if r1 < length (heap s3) then (heap s3)[r1 := Some m3]
                 else heap s3 @ [Some m3]\<rparr>)) = length (heap s2)"
    using r1in2 by (simp add: hs3 hs2)
  have scan: "\<forall>i. 1 \<le> i \<and> i < r1 \<longrightarrow> i < length (heap s) \<and> heap s ! i \<noteq> None"
    using p1 by (auto simp: h_def)
  have reuse: "r1 < length (heap s) \<longrightarrow> heap s ! r1 = None \<and> heap s1 = (heap s)[r1 := Some m1]"
    using p1 by (auto simp: h_def hs1 h1_def)
  have grow: "\<not> r1 < length (heap s) \<longrightarrow> r1 = length (heap s) \<and> heap s1 = heap s @ [Some m1]"
    using p1 by (auto simp: h_def hs1 h1_def)
  define s4 where "s4 = s3\<lparr>heap := if r1 < length (heap s3) then (heap s3)[r1 := Some m3]
                 else heap s3 @ [Some m3]\<rparr>"
  have "allocSegment s (Some m1) = Inr (s1, word_of_nat r1)
         \<and> 1 \<le> unat (word_of_nat r1 :: SegmentId)
         \<and> (\<forall>i. 1 \<le> i \<and> i < unat (word_of_nat r1 :: SegmentId)
                \<longrightarrow> i < length (heap s) \<and> heap s ! i \<noteq> None)
         \<and> (unat (word_of_nat r1 :: SegmentId) < length (heap s) \<longrightarrow>
               heap s ! unat (word_of_nat r1 :: SegmentId) = None
               \<and> heap s1 = (heap s)[unat (word_of_nat r1 :: SegmentId) := Some m1])
         \<and> (\<not> unat (word_of_nat r1 :: SegmentId) < length (heap s) \<longrightarrow>
               unat (word_of_nat r1 :: SegmentId) = length (heap s) \<and> heap s1 = heap s @ [Some m1])
         \<and> allocSegment s1 (Some m2) = Inr (s2, word_of_nat r2)
         \<and> (word_of_nat r2 :: SegmentId) \<noteq> word_of_nat r1
         \<and> deallocate 1 s2 (word_of_nat r1) = Some (Inr s3)
         \<and> allocSegment s3 (Some m3) = Inr (s4, word_of_nat r1)
         \<and> length (heap s4) = length (heap s2)"
    unfolding A1(2) s4_def
    using A1(1) A1(3) scan reuse grow A2(1) idneq D A3 lenfin by simp
  then show ?thesis by blast
qed

theorem C9_witness:
  "heap fresh_example \<noteq> [] \<and> length (heap fresh_example) < 16383
   \<and> allocSegment fresh_example (Some (SegDynMem [1]))
       = Inr (fresh_example\<lparr>heap := [None, Some (SegDynMem [1])]\<rparr>, 1)
   \<and> (\<exists>s1 id1 s2 id2 s3 s4.
           allocSegment fresh_example (Some (SegDynMem [1])) = Inr (s1, id1)
         \<and> 1 \<le> unat id1
         \<and> (\<forall>i. 1 \<le> i \<and> i < unat id1 \<longrightarrow> i < length (heap fresh_example) \<and> heap fresh_example ! i \<noteq> None)
         \<and> (unat id1 < length (heap fresh_example) \<longrightarrow>
               heap fresh_example ! unat id1 = None \<and> heap s1 = (heap fresh_example)[unat id1 := Some (SegDynMem [1])])
         \<and> (\<not> unat id1 < length (heap fresh_example) \<longrightarrow>
               unat id1 = length (heap fresh_example) \<and> heap s1 = heap fresh_example @ [Some (SegDynMem [1])])
         \<and> allocSegment s1 (Some (SegDynMem [2])) = Inr (s2, id2) \<and> id2 \<noteq> id1
         \<and> deallocate 1 s2 id1 = Some (Inr s3)
         \<and> allocSegment s3 (Some (SegDynMem [3])) = Inr (s4, id1)
         \<and> length (heap s4) = length (heap s2))"
  using C9_allocSegment_reuse [of fresh_example "SegDynMem [1]" "SegDynMem [2]" "SegDynMem [3]"]
  by (simp add: fresh_example_def SegManager_new_def allocSegment_def findFreeSegment_def
      findFreeSegment_loop.simps)

section \<open>Dereferencing a stale pointer\<close>

text \<open>
  C1. A pointer whose segment identifier is 0, or is at least the size of the
  directory, or indexes an empty slot, dereferences to the invalid view, which carries
  no pointer; the call returns normally and leaves one diagnostic.
\<close>

theorem C1_dereference_invalid:
  assumes "regSegment p = 0 \<or> length (heap s) \<le> unat (regSegment p)
           \<or> heap s ! unat (regSegment p) = None"
  shows "snd (dereference s p) = SegmentRef_new
         \<and> \<not> isValid (snd (dereference s p))
         \<and> ptr (snd (dereference s p)) = None
         \<and> fst (dereference s p) = warning (WarnDereferenceInvalid p) s"
  using assms by (simp add: dereference_def isValid_def SegmentRef_new_def)

theorem C1_witness:
  "(regSegment (make_reg 2 0) = 0 \<or> length (heap sci3_example) \<le> unat (regSegment (make_reg 2 0))
           \<or> heap sci3_example ! unat (regSegment (make_reg 2 0)) = None) \<and> snd (dereference sci3_example (make_reg 2 0)) = SegmentRef_new
         \<and> \<not> isValid (snd (dereference sci3_example (make_reg 2 0)))
         \<and> ptr (snd (dereference sci3_example (make_reg 2 0))) = None
         \<and> fst (dereference sci3_example (make_reg 2 0)) = warning (WarnDereferenceInvalid (make_reg 2 0)) sci3_example"
  using C1_dereference_invalid [of "make_reg 2 0" sci3_example]
  by (simp add: sci3_example_def SegManager_new_def isValid_def SegmentRef_new_def)



section \<open>Typed accessors\<close>


lemma dereference_valid_state:
  "dereference s p = (s1, r) \<Longrightarrow> isValid r \<Longrightarrow> s1 = s"
  by (auto simp: dereference_def isValid_def SegmentRef_new_def split: if_splits option.splits)





section \<open>Uninstantiation\<close>

lemma putScript_fields [simp]:
  "heap (putScript s slot scr) = (heap s)[slot := Some (SegScript scr)]"
  "scriptSegMap (putScript s slot scr) = scriptSegMap s"
  "classTable (putScript s slot scr) = classTable s"
  "sciVersion (putScript s slot scr) = sciVersion s"
  "isBE (putScript s slot scr) = isBE s"
  "resMan (putScript s slot scr) = resMan s"
  "diagnostics (putScript s slot scr) = diagnostics s"
  by (simp_all add: putScript_def)









lemma sci0_walk_terminator:
  assumes "scriptAt s slot = Some scr" and "scr_buf scr = sci0_class_block c @ [0, 0]"
  shows "sci0_walk (Suc k) rec s nr slot 0 16 = Some (Inr s)"
  using assms by (simp add: READ_SCI11ENDIAN_UINT16_def sci0_class_block_def)




lemma warning_fields [simp]:
  "heap (warning d s) = heap s"
  "scriptSegMap (warning d s) = scriptSegMap s"
  "classTable (warning d s) = classTable s"
  "sciVersion (warning d s) = sciVersion s"
  "isBE (warning d s) = isBE s"
  "resMan (warning d s) = resMan s"
  "diagnostics (warning d s) = d # diagnostics s"
  by (simp_all add: warning_def)


lemma scriptAt_warning [simp]: "scriptAt (warning d s) slot = scriptAt s slot"
  by (simp add: scriptAt_def)



lemma decrementLockers_fields [simp]:
  "scr_nr (decrementLockers scr) = scr_nr scr"
  "scr_buf (decrementLockers scr) = scr_buf scr"
  "scr_markedAsDeleted (decrementLockers scr) = scr_markedAsDeleted scr"
  "scr_localsSegment (decrementLockers scr) = scr_localsSegment scr"
  "scr_lockers (decrementLockers scr) = scr_lockers scr - 1"
  by (simp_all add: decrementLockers_def)


text \<open>From here on the two recursive calls are unfolded by the lemmas above only.\<close>

declare sci0_walk.simps(2) [simp del] uninstantiateScript.simps(2) [simp del]


subsection \<open>What uninstantiation leaves alone\<close>












subsection \<open>Locker discipline\<close>

lemma getScriptSegment_cong:
  "scriptSegMap t = scriptSegMap s \<Longrightarrow> getScriptSegment t nr = getScriptSegment s nr"
  by (simp add: getScriptSegment_def)

lemma getActualSegment_cong:
  "sciVersion t = sciVersion s \<Longrightarrow> getActualSegment t seg = getActualSegment s seg"
  by (simp add: getActualSegment_def)



lemma scriptState_warning [simp]: "scriptState (warning d s) nr = scriptState s nr"
  by (simp add: scriptState_def getScriptSegment_def getScriptIfLoaded_def getActualSegment_def Let_def)









lemma scriptAt_classTable [simp]: "scriptAt (s\<lparr>classTable := c\<rparr>) slot = scriptAt s slot"
  by (simp add: scriptAt_def)






subsection \<open>A superclass cycle across scripts\<close>







subsection \<open>Unlocking the superclass script\<close>





section \<open>Strings and bytes\<close>

lemma dereference_heap_cong:
  assumes "heap t = heap s" and "dereference s p = (s1, r)" and "isValid r"
  shows "dereference t p = (t, r)"
  using assms
  by (auto simp: dereference_def isValid_def SegmentRef_new_def split: if_splits option.splits)

text \<open>What a valid view addresses.\<close>

lemma dereference_raw_view:
  assumes "dereference s p = (s1, r)" and "isValid r" and "isRaw r"
  shows "\<exists>bs off. ptr r = Some (unat (regSegment p), off)
           \<and> segBytes s (unat (regSegment p)) = Some bs \<and> off < length bs
           \<and> maxSize r = int (length bs) - int off \<and> regSegment p \<noteq> 0"
proof -
  from assms(1,2) obtain m where m: "heap s ! unat (regSegment p) = Some m"
    and r: "unat (regSegment p) < length (heap s)" "regSegment p \<noteq> 0"
    and v: "r = SegmentObj_dereference m p"
    by (auto simp: dereference_def isValid_def SegmentRef_new_def
        split: if_splits option.splits)
  show ?thesis
    using assms(2,3) m r unfolding v
    by (cases m) (auto simp: segBytes_def isValid_def SegmentRef_new_def Let_def
        split: if_splits)
qed

lemma dereference_cell_view:
  assumes "dereference s p = (s1, r)" and "isValid r" and "\<not> isRaw r"
  shows "\<exists>cs off. ptr r = Some (unat (regSegment p), off div 2)
           \<and> segCells s (unat (regSegment p)) = Some cs \<and> off < 2 * length cs
           \<and> maxSize r = 2 * int (length cs) - int off \<and> skipByte r = odd off
           \<and> regSegment p \<noteq> 0"
proof -
  from assms(1,2) obtain m where m: "heap s ! unat (regSegment p) = Some m"
    and r: "unat (regSegment p) < length (heap s)" "regSegment p \<noteq> 0"
    and v: "r = SegmentObj_dereference m p"
    by (auto simp: dereference_def isValid_def SegmentRef_new_def
        split: if_splits option.splits)
  show ?thesis
    using assms(2,3) m r unfolding v
    by (cases m) (auto simp: segCells_def isValid_def SegmentRef_new_def Let_def
        split: if_splits)
qed

lemma putBytes_fields [simp]:
  "scriptSegMap (putBytes s seg bs) = scriptSegMap s"
  "classTable (putBytes s seg bs) = classTable s"
  "sciVersion (putBytes s seg bs) = sciVersion s"
  "isBE (putBytes s seg bs) = isBE s"
  "diagnostics (putBytes s seg bs) = diagnostics s"
  "length (heap (putBytes s seg bs)) = length (heap s)"
  by (simp_all add: putBytes_def)

lemma putCells_fields [simp]:
  "scriptSegMap (putCells s seg cs) = scriptSegMap s"
  "classTable (putCells s seg cs) = classTable s"
  "sciVersion (putCells s seg cs) = sciVersion s"
  "isBE (putCells s seg cs) = isBE s"
  "diagnostics (putCells s seg cs) = diagnostics s"
  "length (heap (putCells s seg cs)) = length (heap s)"
  by (simp_all add: putCells_def)

lemma segBytes_putBytes:
  "segBytes s seg = Some bs \<Longrightarrow> segBytes (putBytes s seg bs') seg = Some bs'"
  by (auto simp: segBytes_def putBytes_def split: if_splits option.splits)
     (rename_tac m, case_tac m, simp_all)

lemma segCells_putCells:
  "segCells s seg = Some cs \<Longrightarrow> segCells (putCells s seg cs') seg = Some cs'"
  by (auto simp: segCells_def putCells_def split: if_splits option.splits)
     (rename_tac m, case_tac m, simp_all)

lemma putBytes_putBytes [simp]: "putBytes (putBytes s seg bs) seg bs' = putBytes s seg bs'"
proof -
  have "map_option (setRawStorage bs') (map_option (setRawStorage bs) x)
          = map_option (setRawStorage bs') x" for x
    by (cases x) (simp, rename_tac m, case_tac m, simp_all)
  then show ?thesis
    by (cases "seg < length (heap s)") (simp_all add: putBytes_def list_update_beyond)
qed

lemma putCells_putCells [simp]: "putCells (putCells s seg cs) seg cs' = putCells s seg cs'"
proof -
  have "map_option (setCellStorage cs') (map_option (setCellStorage cs) x)
          = map_option (setCellStorage cs') x" for x
    by (cases x) (simp, rename_tac m, case_tac m, simp_all)
  then show ?thesis
    by (cases "seg < length (heap s)") (simp_all add: putCells_def list_update_beyond)
qed

lemma writeRaw_putBytes:
  "segBytes s seg = Some bs \<Longrightarrow> base + i < length bs \<Longrightarrow>
     writeRaw s (seg, base) i b = Inr (putBytes s seg (bs[base + i := b]))"
  by (simp add: writeRaw_def putBytes_def)

lemma readRaw_bytes:
  "segBytes s seg = Some bs \<Longrightarrow> base + i < length bs \<Longrightarrow>
     readRaw s (seg, base) i = Inr (bs ! (base + i))"
  by (simp add: readRaw_def)

subsection \<open>Bytes in cells\<close>

lemma low_byte_mask: "(0xff :: uint16) = mask 8"
  by (simp add: mask_numeral)

lemma high_byte_mask: "(0xff00 :: uint16) = push_bit 8 (mask 8)"
  by (simp add: mask_numeral push_bit_eq_mult)

lemma cell_high_set:
  "(ucast (drop_bit 8 ((old AND 0x00ff) OR push_bit 8 (ucast (v :: byte)) :: uint16)) :: byte) = v"
  unfolding low_byte_mask by (rule bit_word_eqI) (auto simp: bit_simps)

lemma cell_low_set:
  "(ucast (((old AND 0xff00) OR ucast (v :: byte) :: uint16) AND 0xff) :: byte) = v"
  unfolding low_byte_mask high_byte_mask by (rule bit_word_eqI) (auto simp: bit_simps)

lemma cell_low_kept:
  "(ucast (((old AND 0x00ff) OR push_bit 8 (ucast (v :: byte)) :: uint16) AND 0xff) :: byte)
     = ucast (old AND 0xff)"
  unfolding low_byte_mask by (rule bit_word_eqI) (auto simp: bit_simps)

lemma cell_high_kept:
  "(ucast (drop_bit 8 ((old AND 0xff00) OR ucast (v :: byte) :: uint16)) :: byte)
     = ucast (drop_bit 8 old)"
  unfolding high_byte_mask
  by (rule bit_word_eqI) (auto simp: bit_simps dest: bit_imp_le_length)

lemmas cell_halves = cell_high_set cell_low_set cell_low_kept cell_high_kept

lemma charOfCell_set_same: "charOfCell be (setCharOfCell be val b v) b = v"
  by (simp only: charOfCell_def setCharOfCell_def reg_t.sel cell_halves split: if_splits) simp

lemma charOfCell_set_other:
  "b' \<noteq> b \<Longrightarrow> charOfCell be (setCharOfCell be val b v) b' = charOfCell be val b'"
  by (cases be; cases b; cases b') (simp_all only: charOfCell_def setCharOfCell_def reg_t.sel cell_halves
      if_True if_False not_True_eq_False not_False_eq_True)

lemma regSegment_setCharOfCell [simp]: "regSegment (setCharOfCell be val b v) = 0"
  by (simp add: setCharOfCell_def)

lemma length_cellChars [simp]: "length (cellChars be cs) = 2 * length cs"
  by (simp add: cellChars_def)

lemma nth_cellChars:
  "j < 2 * length cs \<Longrightarrow> cellChars be cs ! j = charOfCell be (cs ! (j div 2)) (odd j)"
  by (simp add: cellChars_def)

lemma cellChars_update:
  assumes "j < 2 * length cs"
  shows "cellChars be (cs[j div 2 := setCharOfCell be (cs ! (j div 2)) (odd j) v])
           = (cellChars be cs)[j := v]"
proof (rule nth_equalityI)
  show "length (cellChars be (cs[j div 2 := setCharOfCell be (cs ! (j div 2)) (odd j) v]))
          = length ((cellChars be cs)[j := v])" by simp
next
  fix i
  assume "i < length (cellChars be (cs[j div 2 := setCharOfCell be (cs ! (j div 2)) (odd j) v]))"
  then have i: "i < 2 * length cs" by simp
  then have id: "i div 2 < length cs" by simp
  from assms have jd: "j div 2 < length cs" by simp
  show "cellChars be (cs[j div 2 := setCharOfCell be (cs ! (j div 2)) (odd j) v]) ! i
          = (cellChars be cs)[j := v] ! i"
  proof (cases "i div 2 = j div 2")
    case False
    then have "i \<noteq> j" by auto
    with False i assms show ?thesis
      by (simp add: nth_cellChars)
  next
    case True
    show ?thesis
    proof (cases "i = j")
      case True
      with assms jd show ?thesis by (simp add: nth_cellChars charOfCell_set_same)
    next
      case False
      with True have "odd i = (\<not> odd j)" by presburger
      with True False i assms jd show ?thesis
        by (simp add: nth_cellChars charOfCell_set_other)
    qed
  qed
qed

lemma length_setChars [simp]: "length (setChars be j vs cs) = length cs"
  by (induction vs arbitrary: j cs) simp_all

lemma overwrite_Cons:
  "j < length ys \<Longrightarrow> overwrite (Suc j) vs (ys[j := v]) = overwrite j (v # vs) ys"
  by (simp add: overwrite_def take_Suc_conv_app_nth)

lemma overwrite_Nil [simp]: "overwrite j [] ys = ys"
  by (simp add: overwrite_def)

lemma length_overwrite: "j + length vs \<le> length ys \<Longrightarrow> length (overwrite j vs ys) = length ys"
  by (simp add: overwrite_def)

lemma nth_overwrite:
  "j + length vs \<le> length ys \<Longrightarrow> i < length ys \<Longrightarrow>
     overwrite j vs ys ! i = (if j \<le> i \<and> i < j + length vs then vs ! (i - j) else ys ! i)"
  by (auto simp: overwrite_def nth_append)

lemma cellChars_setChars:
  "j + length vs \<le> 2 * length cs \<Longrightarrow>
     cellChars be (setChars be j vs cs) = overwrite j vs (cellChars be cs)"
proof (induction vs arbitrary: j cs)
  case Nil
  show ?case by simp
next
  case (Cons v vs)
  from Cons.prems have j: "j < 2 * length cs" by simp
  have "cellChars be (setChars be j (v # vs) cs)
          = overwrite (Suc j) vs (cellChars be (cs[j div 2 := setCharOfCell be (cs ! (j div 2)) (odd j) v]))"
    using Cons.prems by (simp add: Cons.IH)
  also have "\<dots> = overwrite (Suc j) vs ((cellChars be cs)[j := v])"
    by (simp only: cellChars_update [OF j])
  also have "\<dots> = overwrite j (v # vs) (cellChars be cs)"
    using j by (simp add: overwrite_Cons)
  finally show ?case .
qed

lemma setChars_keeps_tag:
  "c < length cs \<Longrightarrow> regSegment (cs ! c) = 0 \<Longrightarrow> regSegment (setChars be j vs cs ! c) = 0"
proof (induction vs arbitrary: j cs)
  case Nil
  then show ?case by simp
next
  case (Cons v vs)
  have "regSegment (cs[j div 2 := setCharOfCell be (cs ! (j div 2)) (odd j) v] ! c) = 0"
    using Cons.prems by (cases "c = j div 2") simp_all
  with Cons.prems show ?case by (simp add: Cons.IH)
qed

lemma setChars_tags:
  "j \<le> k \<Longrightarrow> k < j + length vs \<Longrightarrow> k < 2 * length cs \<Longrightarrow>
     regSegment (setChars be j vs cs ! (k div 2)) = 0"
proof (induction vs arbitrary: j cs)
  case Nil
  then show ?case by simp
next
  case (Cons v vs)
  show ?case
  proof (cases "k = j")
    case True
    with Cons.prems show ?thesis
      by (simp add: setChars_keeps_tag)
  next
    case False
    with Cons.prems show ?thesis by (simp add: Cons.IH)
  qed
qed

subsection \<open>Single characters\<close>

lemma writeCell_putCells:
  "segCells s seg = Some cs \<Longrightarrow> base + k < length cs \<Longrightarrow>
     writeCell s (seg, base) k v = Inr (putCells s seg (cs[base + k := v]))"
  by (simp add: writeCell_def putCells_def)

lemma readCell_cells:
  "segCells s seg = Some cs \<Longrightarrow> base + k < length cs \<Longrightarrow>
     readCell s (seg, base) k = Inr (cs ! (base + k))"
  by (simp add: readCell_def)

text \<open>Character \<open>i\<close> of a view into cells is byte \<open>viewStart r + i\<close> of the store.\<close>

lemma view_cell_index:
  "(2 * base + (i + (if sk then 1 else 0))) div 2 = base + (i + (if sk then 1 else 0)) div 2"
  "odd (2 * base + (i + (if sk then 1 else 0 :: nat))) = odd (i + (if sk then 1 else 0))"
  by simp_all

lemma setChar_cells:
  assumes p: "ptr r = Some (seg, base)" and nr: "\<not> isRaw r"
    and c: "segCells s seg = Some cs" and j: "viewStart r + i < 2 * length cs"
  shows "setChar s r i v =
           Inr (putCells s seg
                  (cs[(viewStart r + i) div 2 :=
                        setCharOfCell (isBE s) (cs ! ((viewStart r + i) div 2))
                          (odd (viewStart r + i)) v]))"
proof -
  define off where "off = i + (if skipByte r then 1 else 0 :: nat)"
  have vs: "viewStart r + i = 2 * base + off"
    using p nr by (simp add: viewStart_def off_def)
  have d: "(2 * base + off) div 2 = base + off div 2" "odd (2 * base + off) = odd off"
    by simp_all
  from j have r: "base + off div 2 < length cs" unfolding vs d(1) [symmetric] by simp
  have o: "(if skipByte r then i + 1 else i) = off" by (simp add: off_def)
  show ?thesis
    unfolding vs d
    using p c r
    by (simp add: setChar_def o Let_def readCell_cells writeCell_putCells setCharOfCell_def)
qed

lemma getChar_cells:
  assumes p: "ptr r = Some (seg, base)" and nr: "\<not> isRaw r"
    and c: "segCells s seg = Some cs" and j: "viewStart r + i < 2 * length cs"
    and tag: "regSegment (cs ! ((viewStart r + i) div 2)) = 0"
  shows "getChar s r i = Inr (s, cellChars (isBE s) cs ! (viewStart r + i))"
proof -
  define off where "off = i + (if skipByte r then 1 else 0 :: nat)"
  have vs: "viewStart r + i = 2 * base + off"
    using p nr by (simp add: viewStart_def off_def)
  have d: "(2 * base + off) div 2 = base + off div 2" "odd (2 * base + off) = odd off"
    by simp_all
  from j have r: "base + off div 2 < length cs" unfolding vs d(1) [symmetric] by simp
  have o: "(if skipByte r then i + 1 else i) = off" by (simp add: off_def)
  have n: "cellChars (isBE s) cs ! (2 * base + off)
             = charOfCell (isBE s) (cs ! (base + off div 2)) (odd off)"
    using j unfolding vs by (simp add: nth_cellChars)
  show ?thesis
    unfolding vs n
    using p c r tag [unfolded vs d]
    by (simp add: getChar_def o Let_def readCell_cells charOfCell_def)
qed

subsection \<open>Copying a host string\<close>

lemma forwardCopy_loop_string:
  assumes "segBytes s seg = Some bs" and "0 \<notin> set str"
    and "base + i + length str < length bs" and "length str < n" and "length pre = i"
  shows "forwardCopy_loop True s (seg, base) (HostData (pre @ str @ 0 # rest)) i n
           = Inr (putBytes s seg (overwrite (base + i) (str @ [0]) bs),
                  i + length str + 1, n - length str - 1)"
  using assms
proof (induction str arbitrary: s bs i n pre)
  case Nil
  then have rd: "readPtr s (HostData (pre @ 0 # rest)) i = Inr 0"
    by (simp add: readPtr_def nth_append)
  from Nil have wr: "writeRaw s (seg, base) i 0 = Inr (putBytes s seg (bs[base + i := 0]))"
    by (simp add: writeRaw_putBytes)
  have ov: "overwrite (base + i) [0] bs = bs[base + i := 0]"
    using Nil.prems overwrite_Cons [of "base + i" bs "[]" 0] by simp
  from Nil.prems show ?case
    by (subst forwardCopy_loop.simps) (simp add: rd wr ov)
next
  case (Cons c str)
  then have c0: "c \<noteq> 0" by auto
  from Cons.prems have rd: "readPtr s (HostData (pre @ (c # str) @ 0 # rest)) i = Inr c"
    by (simp add: readPtr_def nth_append)
  from Cons.prems have wr: "writeRaw s (seg, base) i c = Inr (putBytes s seg (bs[base + i := c]))"
    by (simp add: writeRaw_putBytes)
  have sb: "segBytes (putBytes s seg (bs[base + i := c])) seg = Some (bs[base + i := c])"
    using Cons.prems(1) by (rule segBytes_putBytes)
  have ih: "forwardCopy_loop True (putBytes s seg (bs[base + i := c])) (seg, base)
              (HostData ((pre @ [c]) @ str @ 0 # rest)) (Suc i) (n - 1)
            = Inr (putBytes (putBytes s seg (bs[base + i := c])) seg
                     (overwrite (base + Suc i) (str @ [0]) (bs[base + i := c])),
                   Suc i + length str + 1, n - 1 - length str - 1)"
    using Cons.prems by (intro Cons.IH [OF sb]) auto
  have ov: "overwrite (base + Suc i) (str @ [0]) (bs[base + i := c])
              = overwrite (base + i) ((c # str) @ [0]) bs"
    using Cons.prems overwrite_Cons [of "base + i" bs "str @ [0]" c] by simp
  from Cons.prems c0 show ?case
    by (subst forwardCopy_loop.simps) (simp add: rd [simplified] wr ih [simplified] ov [simplified])
qed

lemma copy_loop_string:
  assumes "ptr r = Some (seg, base)" and "\<not> isRaw r"
    and "segCells s seg = Some cs" and "0 \<notin> set str"
    and "viewStart r + i + length str < 2 * length cs" and "i + length str < n"
    and "length pre = i"
  shows "copy_loop True (rdPtr (HostData (pre @ str @ 0 # rest))) (\<lambda>t. setChar t r) s i n
           = Inr (putCells s seg (setChars (isBE s) (viewStart r + i) (str @ [0]) cs))"
  using assms(3-)
proof (induction str arbitrary: s cs i pre)
  case Nil
  then have rd: "rdPtr (HostData (pre @ 0 # rest)) s i = Inr (s, 0)"
    by (simp add: rdPtr_def readPtr_def nth_append)
  from Nil have j: "viewStart r + i < 2 * length cs" by simp
  from Nil.prems show ?case
    by (subst copy_loop.simps)
       (simp add: rd setChar_cells [OF assms(1,2) Nil.prems(1) j])
next
  case (Cons c str)
  then have c0: "c \<noteq> 0" by auto
  from Cons.prems have rd: "rdPtr (HostData (pre @ (c # str) @ 0 # rest)) s i = Inr (s, c)"
    by (simp add: rdPtr_def readPtr_def nth_append)
  from Cons.prems have j: "viewStart r + i < 2 * length cs" by simp
  define cs1 where "cs1 = cs[(viewStart r + i) div 2 :=
                        setCharOfCell (isBE s) (cs ! ((viewStart r + i) div 2))
                          (odd (viewStart r + i)) c]"
  note wr = setChar_cells [OF assms(1,2) Cons.prems(1) j, of c, folded cs1_def]
  have sc: "segCells (putCells s seg cs1) seg = Some cs1"
    using Cons.prems(1) by (rule segCells_putCells)
  have ih: "copy_loop True (rdPtr (HostData ((pre @ [c]) @ str @ 0 # rest))) (\<lambda>t. setChar t r)
              (putCells s seg cs1) (Suc i) n
            = Inr (putCells (putCells s seg cs1) seg
                     (setChars (isBE (putCells s seg cs1)) (viewStart r + Suc i) (str @ [0]) cs1))"
    using Cons.prems by (intro Cons.IH [OF sc]) (auto simp: cs1_def)
  have rhs: "setChars (isBE s) (viewStart r + i) ((c # str) @ [0]) cs
               = setChars (isBE s) (Suc (viewStart r + i)) (str @ [0]) cs1"
    by (simp only: cs1_def append_Cons setChars.simps)
  from Cons.prems c0 show ?case
    unfolding rhs
    by (subst copy_loop.simps) (simp add: rd [simplified] wr ih [simplified])
qed

subsection \<open>Reading a string back\<close>

lemma strnlen_string:
  assumes "segBytes t seg = Some bs" and "0 \<notin> set str"
    and "base + length str < length bs" and "length str < bound"
    and "\<And>j. j < length str \<Longrightarrow> bs ! (base + j) = str ! j"
    and "bs ! (base + length str) = 0"
  shows "i \<le> length str \<Longrightarrow> strnlen t (seg, base) i bound = Inr (length str)"
proof (induction "length str - i" arbitrary: i)
  case 0
  then have i: "i = length str" by simp
  show ?case
    using assms(1,3,4,6) unfolding i
    by (subst strnlen.simps) (simp add: readRaw_bytes)
next
  case (Suc k)
  then have i: "i < length str" by simp
  then have "str ! i \<in> set str" by simp
  with assms(2) have nz: "str ! i \<noteq> 0" by metis
  have rd: "readRaw t (seg, base) i = Inr (str ! i)"
    using assms(1,3,5) i by (simp add: readRaw_bytes)
  have "strnlen t (seg, base) (Suc i) bound = Inr (length str)"
    using Suc.hyps(2) i by (intro Suc.hyps(1)) simp_all
  then show ?case
    using i assms(4) nz by (subst strnlen.simps) (simp add: rd)
qed

lemma getString_loop_string:
  assumes p: "ptr r = Some (seg, base)" and nr: "\<not> isRaw r"
    and c: "segCells t seg = Some cs" and "0 \<notin> set str"
    and fit: "viewStart r + length str < 2 * length cs" and "length str < bound"
    and chars: "\<And>j. j < length str \<Longrightarrow> cellChars (isBE t) cs ! (viewStart r + j) = str ! j"
    and zero: "cellChars (isBE t) cs ! (viewStart r + length str) = 0"
    and tags: "\<And>j. j \<le> length str \<Longrightarrow> regSegment (cs ! ((viewStart r + j) div 2)) = 0"
  shows "i \<le> length str \<Longrightarrow> getString_loop t r i bound (take i str) = Inr (t, str)"
proof (induction "length str - i" arbitrary: i)
  case 0
  then have i: "i = length str" by simp
  have g: "getChar t r (length str) = Inr (t, 0)"
    using getChar_cells [OF p nr c fit tags [OF order_refl]] zero by simp
  show ?case
    using assms(6) unfolding i
    by (subst getString_loop.simps) (simp add: g)
next
  case (Suc k)
  then have i: "i < length str" by simp
  then have "str ! i \<in> set str" by simp
  with assms(4) have nz: "str ! i \<noteq> 0" by metis
  from i fit have j: "viewStart r + i < 2 * length cs" by simp
  have g: "getChar t r i = Inr (t, str ! i)"
    using getChar_cells [OF p nr c j tags [of i]] chars [OF i] i by simp
  have "getString_loop t r (Suc i) bound (take (Suc i) str) = Inr (t, str)"
    using Suc.hyps(2) i by (intro Suc.hyps(1)) simp_all
  then show ?case
    using i assms(6) nz
    by (subst getString_loop.simps) (simp add: g take_Suc_conv_app_nth)
qed

subsection \<open>The round trip\<close>

lemma segCells_not_raw: "segCells s seg = Some cs \<Longrightarrow> segBytes s seg = None"
  by (auto simp: segCells_def segBytes_def split: if_splits option.splits)
     (rename_tac m, case_tac m, simp_all)

lemma dereference_putBytes:
  assumes "dereference s p = (s, r)" and "isValid r"
    and "segBytes s sg = Some bs" and "length bs' = length bs"
  shows "dereference (putBytes s sg bs') p = (putBytes s sg bs', r)"
proof -
  from assms(1,2) obtain m where m: "heap s ! unat (regSegment p) = Some m"
    and r: "unat (regSegment p) < length (heap s)" "regSegment p \<noteq> 0"
    and v: "r = SegmentObj_dereference m p"
    by (auto simp: dereference_def isValid_def SegmentRef_new_def
        split: if_splits option.splits)
  show ?thesis
  proof (cases "unat (regSegment p) = sg")
    case False
    with m r v show ?thesis by (simp add: dereference_def putBytes_def)
  next
    case True
    with assms(3) m r have "rawStorage m = Some bs" by (simp add: segBytes_def)
    then have "SegmentObj_dereference (setRawStorage bs' m) p = SegmentObj_dereference m p"
      using assms(4) by (cases m) (auto simp: Let_def)
    with True m r v show ?thesis by (simp add: dereference_def putBytes_def)
  qed
qed

lemma dereference_putCells:
  assumes "dereference s p = (s, r)" and "isValid r"
    and "segCells s sg = Some cs" and "length cs' = length cs"
  shows "dereference (putCells s sg cs') p = (putCells s sg cs', r)"
proof -
  from assms(1,2) obtain m where m: "heap s ! unat (regSegment p) = Some m"
    and r: "unat (regSegment p) < length (heap s)" "regSegment p \<noteq> 0"
    and v: "r = SegmentObj_dereference m p"
    by (auto simp: dereference_def isValid_def SegmentRef_new_def
        split: if_splits option.splits)
  show ?thesis
  proof (cases "unat (regSegment p) = sg")
    case False
    with m r v show ?thesis by (simp add: dereference_def putCells_def)
  next
    case True
    with assms(3) m r have "cellStorage m = Some cs" by (simp add: segCells_def)
    then have "SegmentObj_dereference (setCellStorage cs' m) p = SegmentObj_dereference m p"
      using assms(4) by (cases m) (auto simp: Let_def)
    with True m r v show ?thesis by (simp add: dereference_def putCells_def)
  qed
qed

lemma bound_conversions:
  assumes "0 \<le> m" and "m < 2 ^ 31"
  shows "size_t_of_int m = nat m" and "uint_of_int m = nat m"
  using assms by (simp_all add: size_t_of_int_def uint_of_int_def)

text \<open>
  Writing a string that fits, terminator included, and reading it back. The written
  run of bytes is all that changes in the destination's segment; no other segment and
  no diagnostic changes.
\<close>

lemma strcpy_cstr_roundtrip:
  assumes d: "dereference s dest = (s1, dr)" and v: "isValid dr"
    and fit: "int (length str) < maxSize dr" and bound: "maxSize dr < 2 ^ 31"
    and nz: "0 \<notin> set str"
  shows "\<exists>chars s'. segChars s (viewSegment dr) = Some chars
           \<and> strcpy_cstr s dest (HostData (str @ 0 # rest)) = Inr s'
           \<and> getString s' dest = Inr (s', str)
           \<and> segChars s' (viewSegment dr) = Some (overwrite (viewStart dr) (str @ [0]) chars)
           \<and> viewStart dr + length str < length chars
           \<and> diagnostics s' = diagnostics s
           \<and> (\<forall>seg. seg \<noteq> viewSegment dr \<longrightarrow> heap s' ! seg = heap s ! seg)"
proof -
  have s1: "s1 = s" using d v by (rule dereference_valid_state)
  note d' = d [unfolded s1]
  have n: "length str < 4294967295" using fit bound by simp
  have pos: "0 \<le> maxSize dr" using fit by simp
  note bc = bound_conversions [OF pos bound]
  show ?thesis
  proof (cases "isRaw dr")
    case True
    from dereference_raw_view [OF d v True] obtain bs off where
      p: "ptr dr = Some (unat (regSegment dest), off)"
      and sb: "segBytes s (unat (regSegment dest)) = Some bs" and off: "off < length bs"
      and ms: "maxSize dr = int (length bs) - int off" and nn: "regSegment dest \<noteq> 0"
      by blast
    define sg where "sg = unat (regSegment dest)"
    define bs' where "bs' = overwrite off (str @ [0]) bs"
    define s' where "s' = putBytes s sg bs'"
    from fit ms have room: "off + length str < length bs" by simp
    have vs: "viewSegment dr = sg" "viewStart dr = off"
      using p True by (simp_all add: viewSegment_def viewStart_def sg_def)
    have len: "length bs' = length bs" using room by (simp add: bs'_def length_overwrite)
    have copy: "forwardCopy_loop True s (sg, off) (HostData ([] @ str @ 0 # rest)) 0 4294967295
                  = Inr (putBytes s sg (overwrite (off + 0) (str @ [0]) bs),
                         0 + length str + 1, 4294967295 - length str - 1)"
      by (rule forwardCopy_loop_string) (use sb nz room n in \<open>simp_all add: sg_def\<close>)
    have w: "strcpy_cstr s dest (HostData (str @ 0 # rest)) = Inr s'"
      using d' v True p copy
      by (simp add: strcpy_cstr_def strncpy_cstr_def forwardCopy_def sg_def s'_def bs'_def)
    have sb': "segBytes s' sg = Some bs'"
      using sb by (simp add: s'_def sg_def segBytes_putBytes)
    have dd: "dereference s' dest = (s', dr)"
      unfolding s'_def by (rule dereference_putBytes [OF d' v sb [folded sg_def] len])
    have at: "\<And>j. j < length str \<Longrightarrow> bs' ! (off + j) = str ! j"
      and z: "bs' ! (off + length str) = 0"
      using room by (simp_all add: bs'_def nth_overwrite nth_append)
    have sl: "strnlen s' (sg, off) 0 (nat (maxSize dr)) = Inr (length str)"
      by (rule strnlen_string [OF sb' nz _ _ at z]) (use room len fit in simp_all)
    have tk: "take (length str) (drop off bs') = str"
      using room by (simp add: bs'_def overwrite_def)
    have g: "getString s' dest = Inr (s', str)"
      using nn dd v True p sl sb' tk
      by (simp add: getString_def isNull_def bc sg_def)
    have oth: "\<forall>seg. seg \<noteq> sg \<longrightarrow> heap s' ! seg = heap s ! seg"
      by (simp add: s'_def putBytes_def)
    show ?thesis
      using sb sb' w g oth room
      by (auto simp: vs segChars_def sg_def bs'_def s'_def)
  next
    case False
    from dereference_cell_view [OF d v False] obtain cs off where
      p: "ptr dr = Some (unat (regSegment dest), off div 2)"
      and sc: "segCells s (unat (regSegment dest)) = Some cs" and off: "off < 2 * length cs"
      and ms: "maxSize dr = 2 * int (length cs) - int off" and sk: "skipByte dr = odd off"
      and nn: "regSegment dest \<noteq> 0"
      by blast
    define sg where "sg = unat (regSegment dest)"
    define be where "be = isBE s"
    define cs' where "cs' = setChars be off (str @ [0]) cs"
    define s' where "s' = putCells s sg cs'"
    from fit ms have room: "off + length str < 2 * length cs" by simp
    have st: "viewStart dr = off"
      using p False sk by (simp add: viewStart_def)
    have vs: "viewSegment dr = sg" using p by (simp add: viewSegment_def sg_def)
    have copy: "copy_loop True (rdPtr (HostData ([] @ str @ 0 # rest))) (\<lambda>t. setChar t dr) s 0
                  4294967295
                = Inr (putCells s sg (setChars (isBE s) (viewStart dr + 0) (str @ [0]) cs))"
      by (rule copy_loop_string [OF p [folded sg_def] False])
         (use sc nz room n in \<open>simp_all add: sg_def st\<close>)
    have nt: "\<not> 4294967295 < nat (maxSize dr)" using bound by simp
    have w: "strcpy_cstr s dest (HostData (str @ 0 # rest)) = Inr s'"
      using d' v False copy nt
      by (simp add: strcpy_cstr_def strncpy_cstr_def bc st s'_def cs'_def be_def)
    have sc': "segCells s' sg = Some cs'"
      using sc by (simp add: s'_def sg_def segCells_putCells)
    have be': "isBE s' = be" by (simp add: s'_def be_def)
    have dd: "dereference s' dest = (s', dr)"
      unfolding s'_def
      by (rule dereference_putCells [OF d' v sc [folded sg_def]]) (simp add: cs'_def)
    have cc: "cellChars be cs' = overwrite off (str @ [0]) (cellChars be cs)"
      unfolding cs'_def by (rule cellChars_setChars) (use room in simp)
    have at: "\<And>j. j < length str \<Longrightarrow> cellChars (isBE s') cs' ! (viewStart dr + j) = str ! j"
      and z: "cellChars (isBE s') cs' ! (viewStart dr + length str) = 0"
      using room by (simp_all add: be' cc st nth_overwrite nth_append)
    have tg: "\<And>j. j \<le> length str \<Longrightarrow> regSegment (cs' ! ((viewStart dr + j) div 2)) = 0"
      unfolding cs'_def st by (rule setChars_tags) (use room in simp_all)
    have gl: "getString_loop s' dr 0 (nat (maxSize dr)) (take 0 str) = Inr (s', str)"
      by (rule getString_loop_string [OF p [folded sg_def] False sc' nz _ _ at z tg])
         (use room fit in \<open>simp_all add: cs'_def st\<close>)
    have g: "getString s' dest = Inr (s', str)"
      using nn dd v False gl
      by (simp add: getString_def isNull_def bc)
    have oth: "\<forall>seg. seg \<noteq> sg \<longrightarrow> heap s' ! seg = heap s ! seg"
      by (simp add: s'_def putCells_def)
    have c0: "segChars s sg = Some (cellChars be cs)"
      using sc segCells_not_raw [OF sc] by (simp add: segChars_def sg_def be_def)
    have c1: "segChars s' sg = Some (cellChars be cs')"
      using sc' segCells_not_raw [OF sc'] by (simp add: segChars_def be')
    show ?thesis
      using c0 c1 w g oth room
      by (auto simp: vs st cc s'_def)
  qed
qed


subsection \<open>Writing a string and reading it back\<close>

text \<open>
  C3 (as amended). For every valid destination pointer, raw or not, and every source
  string without a zero byte whose length is below the destination's maxSize bound (so
  that the terminator fits as well; lengths 0 and 1 among them), writing it with
  strcpy_ and reading it back with getString returns exactly the original bytes, and
  only the string and its terminator are written. strcpy_ does not truncate: it
  copies up to the terminator with no regard to the bound.
\<close>

theorem C3_strcpy_getString_roundtrip:
  assumes "dereference s dest = (s1, dr)" and "isValid dr"
    and "int (length str) < maxSize dr" and "maxSize dr < 2 ^ 31"
    and "0 \<notin> set str"
  shows "\<exists>chars s'. segChars s (viewSegment dr) = Some chars
           \<and> strcpy_cstr s dest (HostData (str @ 0 # rest)) = Inr s'
           \<and> getString s' dest = Inr (s', str)
           \<and> segChars s' (viewSegment dr) = Some (overwrite (viewStart dr) (str @ [0]) chars)
           \<and> viewStart dr + length str < length chars
           \<and> diagnostics s' = diagnostics s
           \<and> (\<forall>seg. seg \<noteq> viewSegment dr \<longrightarrow> heap s' ! seg = heap s ! seg)"
  using assms by (rule strcpy_cstr_roundtrip)

theorem C3_witness:
  "dereference locals_example (make_reg 2 0)
     = (locals_example, \<lparr>isRaw = True, ptr = Some (2, 0), maxSize = 3, skipByte = False\<rparr>)
   \<and> dereference locals_example (make_reg 1 1)
     = (locals_example, \<lparr>isRaw = False, ptr = Some (1, 0), maxSize = 3, skipByte = True\<rparr>)
   \<and> (\<exists>s'. strcpy_cstr locals_example (make_reg 2 0) (HostData [0x41, 0x42, 0]) = Inr s'
          \<and> getString s' (make_reg 2 0) = Inr (s', [0x41, 0x42])
          \<and> segChars s' 2 = Some [0x41, 0x42, 0])
   \<and> (\<exists>s'. strcpy_cstr locals_example (make_reg 1 1) (HostData [0x41, 0]) = Inr s'
          \<and> getString s' (make_reg 1 1) = Inr (s', [0x41])
          \<and> segChars s' 1 = Some [0x68, 0x41, 0, 0])
   \<and> (\<exists>s'. strcpy_cstr locals_example (make_reg 2 0) (HostData [0]) = Inr s'
          \<and> getString s' (make_reg 2 0) = Inr (s', [])
          \<and> segChars s' 2 = Some [0, 0x62, 0])"
proof -
  have d2: "dereference locals_example (make_reg 2 0)
     = (locals_example, \<lparr>isRaw = True, ptr = Some (2, 0), maxSize = 3, skipByte = False\<rparr>)"
    and d1: "dereference locals_example (make_reg 1 1)
     = (locals_example, \<lparr>isRaw = False, ptr = Some (1, 0), maxSize = 3, skipByte = True\<rparr>)"
    by (simp_all add: locals_example_def fresh_example_def SegManager_new_def dereference_def)
  have v: "isValid \<lparr>isRaw = True, ptr = Some (2, 0), maxSize = 3, skipByte = False\<rparr>"
    "isValid \<lparr>isRaw = False, ptr = Some (1, 0), maxSize = 3, skipByte = True\<rparr>"
    by (simp_all add: isValid_def)
  have c2: "segChars locals_example 2 = Some [0x61, 0x62, 0]"
    and c1: "segChars locals_example 1 = Some [0x68, 0x69, 0, 0]"
    by (simp_all add: segChars_def segBytes_def segCells_def locals_example_def fresh_example_def
        SegManager_new_def cellChars_def charOfCell_def upt_rec)
  have a: "\<exists>s'. strcpy_cstr locals_example (make_reg 2 0) (HostData [0x41, 0x42, 0]) = Inr s'
          \<and> getString s' (make_reg 2 0) = Inr (s', [0x41, 0x42])
          \<and> segChars s' 2 = Some [0x41, 0x42, 0]"
    using C3_strcpy_getString_roundtrip [OF d2 v(1), of "[0x41, 0x42]" "[]"] c2
    by (auto simp: viewSegment_def viewStart_def overwrite_def)
  have b: "\<exists>s'. strcpy_cstr locals_example (make_reg 1 1) (HostData [0x41, 0]) = Inr s'
          \<and> getString s' (make_reg 1 1) = Inr (s', [0x41])
          \<and> segChars s' 1 = Some [0x68, 0x41, 0, 0]"
    using C3_strcpy_getString_roundtrip [OF d1 v(2), of "[0x41]" "[]"] c1
    by (auto simp: viewSegment_def viewStart_def overwrite_def)
  have c: "\<exists>s'. strcpy_cstr locals_example (make_reg 2 0) (HostData [0]) = Inr s'
          \<and> getString s' (make_reg 2 0) = Inr (s', [])
          \<and> segChars s' 2 = Some [0, 0x62, 0]"
    using C3_strcpy_getString_roundtrip [OF d2 v(1), of "[]" "[]"] c2
    by (auto simp: viewSegment_def viewStart_def overwrite_def)
  from d2 d1 a b c show ?thesis by blast
qed

theorem C3_counterexample:
  "maxSize (snd (dereference locals_example (make_reg 2 0))) = 3
   \<and> strcpy_cstr locals_example (make_reg 2 0) (HostData [0x61, 0x62, 0x63, 0x64, 0])
       = Inl OutOfBoundsAccess"
proof -
  have d2: "dereference locals_example (make_reg 2 0)
     = (locals_example, \<lparr>isRaw = True, ptr = Some (2, 0), maxSize = 3, skipByte = False\<rparr>)"
    by (simp add: locals_example_def fresh_example_def SegManager_new_def dereference_def)
  have sb: "segBytes locals_example 2 = Some [0x61, 0x62, 0]"
    by (simp add: segBytes_def locals_example_def fresh_example_def SegManager_new_def)
  define src where "src = HostData [0x61, 0x62, 0x63, 0x64, 0 :: byte]"
  have rd: "readPtr t src 0 = Inr 0x61" "readPtr t src (Suc 0) = Inr 0x62" "readPtr t src 2 = Inr 0x63"
    "readPtr t src 3 = Inr 0x64" for t
    by (simp_all add: readPtr_def src_def)
  define t1 where "t1 = putBytes locals_example 2 ([0x61, 0x62, 0][0 + 0 := 0x61])"
  have w1: "writeRaw locals_example (2, 0) 0 0x61 = Inr t1"
    unfolding t1_def by (rule writeRaw_putBytes [OF sb]) simp
  have sb1: "segBytes t1 2 = Some [0x61, 0x62, 0]"
    using segBytes_putBytes [OF sb, of "[0x61, 0x62, 0][0 + 0 := 0x61]"] by (simp add: t1_def)
  define t2 where "t2 = putBytes t1 2 ([0x61, 0x62, 0][0 + 1 := 0x62])"
  have w2: "writeRaw t1 (2, 0) (Suc 0) 0x62 = Inr t2"
    unfolding t2_def using writeRaw_putBytes [OF sb1, of 0 1 "0x62"] by simp
  have sb2: "segBytes t2 2 = Some [0x61, 0x62, 0]"
    using segBytes_putBytes [OF sb1, of "[0x61, 0x62, 0][0 + 1 := 0x62]"] by (simp add: t2_def)
  define t3 where "t3 = putBytes t2 2 ([0x61, 0x62, 0][0 + 2 := 0x63])"
  have w3: "writeRaw t2 (2, 0) 2 0x63 = Inr t3"
    unfolding t3_def by (rule writeRaw_putBytes [OF sb2]) simp
  have sb3: "segBytes t3 2 = Some [0x61, 0x62, 0x63]"
    using segBytes_putBytes [OF sb2, of "[0x61, 0x62, 0][0 + 2 := 0x63]"] by (simp add: t3_def)
  have w4: "writeRaw t3 (2, 0) 3 0x64 = Inl OutOfBoundsAccess"
    by (simp add: writeRaw_def sb3)
  have l4: "forwardCopy_loop True t3 (2, 0) src 3 4294967292 = Inl OutOfBoundsAccess"
    by (subst forwardCopy_loop.simps) (simp add: rd w4)
  have l3: "forwardCopy_loop True t2 (2, 0) src 2 4294967293 = Inl OutOfBoundsAccess"
    by (subst forwardCopy_loop.simps) (simp add: rd w3 l4)
  have l2: "forwardCopy_loop True t1 (2, 0) src (Suc 0) 4294967294 = Inl OutOfBoundsAccess"
    by (subst forwardCopy_loop.simps) (simp add: rd w2 l3 numeral_2_eq_2 [symmetric])
  have l1: "forwardCopy_loop True locals_example (2, 0) src 0 4294967295 = Inl OutOfBoundsAccess"
    by (subst forwardCopy_loop.simps) (simp add: rd w1 l2)
  show ?thesis
    using l1 by (simp add: d2 strcpy_cstr_def strncpy_cstr_def forwardCopy_def isValid_def
        src_def)
qed

subsection \<open>Clearing the destination\<close>

lemma overwrite_single: "j < length ys \<Longrightarrow> overwrite j [v] ys = ys[j := v]"
  by (simp add: overwrite_def upd_conv_take_nth_drop)

lemma dereference_state:
  "heap (fst (dereference s p)) = heap s \<and> isBE (fst (dereference s p)) = isBE s"
  by (simp add: dereference_def split: option.splits)

lemma segChars_cong: "heap t = heap s \<Longrightarrow> isBE t = isBE s \<Longrightarrow> segChars t seg = segChars s seg"
proof -
  assume h: "heap t = heap s" and b: "isBE t = isBE s"
  have e: "segBytes t seg = segBytes s seg" "segCells t seg = segCells s seg"
    by (simp_all add: segBytes_def segCells_def h)
  show ?thesis unfolding segChars_def e b ..
qed

lemma valid_view_room:
  assumes "dereference s p = (s1, r)" and "isValid r"
  shows "0 < maxSize r"
proof (cases "isRaw r")
  case True
  from dereference_raw_view [OF assms True] show ?thesis by auto
next
  case False
  from dereference_cell_view [OF assms False] show ?thesis by auto
qed

lemma clear_string:
  assumes d: "dereference s dest = (s1, dr)" and v: "isValid dr" and bound: "maxSize dr < 2 ^ 31"
    and t: "heap t = heap s" "isBE t = isBE s"
  shows "\<exists>chars s'. segChars s (viewSegment dr) = Some chars
           \<and> viewStart dr < length chars
           \<and> strcpy_cstr t dest (HostData [0]) = Inr s'
           \<and> segChars s' (viewSegment dr) = Some (chars[viewStart dr := 0])
           \<and> getString s' dest = Inr (s', [])
           \<and> diagnostics s' = diagnostics t
           \<and> (\<forall>seg. seg \<noteq> viewSegment dr \<longrightarrow> heap s' ! seg = heap s ! seg)"
proof -
  have dt: "dereference t dest = (t, dr)"
    by (rule dereference_heap_cong [OF t(1) d v])
  have room: "int (length ([] :: byte list)) < maxSize dr"
    using valid_view_room [OF d v] by simp
  from strcpy_cstr_roundtrip [OF dt v room bound, of "[]"]
  obtain chars s' where r: "segChars t (viewSegment dr) = Some chars"
    "strcpy_cstr t dest (HostData [0]) = Inr s'"
    "getString s' dest = Inr (s', [])"
    "segChars s' (viewSegment dr) = Some (overwrite (viewStart dr) [0] chars)"
    "viewStart dr < length chars" "diagnostics s' = diagnostics t"
    "\<forall>seg. seg \<noteq> viewSegment dr \<longrightarrow> heap s' ! seg = heap t ! seg"
    by auto
  have "segChars s (viewSegment dr) = Some chars"
    using r(1) segChars_cong [OF t] by simp
  moreover have "segChars s' (viewSegment dr) = Some (chars[viewStart dr := 0])"
    using r(4,5) by (simp add: overwrite_single)
  moreover have "\<forall>seg. seg \<noteq> viewSegment dr \<longrightarrow> heap s' ! seg = heap s ! seg"
    using r(7) t(1) by simp
  ultimately show ?thesis using r(2,3,5,6) by blast
qed

text \<open>
  C10. For every valid destination pointer and every n > 0, the pointer-to-pointer
  strncpy with a null source, or with a source that does not resolve to a valid view,
  returns without a fatal error and writes an empty string: the character the
  destination points at becomes the terminating zero, so that getString on the
  destination reads the empty string, and no other character and no other segment is
  touched. (The view's maxSize is a C++ int, hence below 2^31.)
\<close>

theorem C10_strncpy_null_source_clears:
  assumes d: "dereference s dest = (s1, dr)" and v: "isValid dr" and bound: "maxSize dr < 2 ^ 31"
    and n: "0 < n"
    and src: "isNull src \<or> \<not> isValid (snd (dereference s src))"
  shows "\<exists>chars s'. segChars s (viewSegment dr) = Some chars
           \<and> viewStart dr < length chars
           \<and> strncpy_reg s dest src n = Inr s'
           \<and> segChars s' (viewSegment dr) = Some (chars[viewStart dr := 0])
           \<and> getString s' dest = Inr (s', [])
           \<and> (\<forall>seg. seg \<noteq> viewSegment dr \<longrightarrow> heap s' ! seg = heap s ! seg)"
proof (cases "isNull src")
  case True
  have "strncpy_reg s dest src n = strcpy_cstr s dest (HostData [0])"
    using True n by (simp add: strncpy_reg_def)
  with clear_string [OF d v bound refl refl] show ?thesis by auto
next
  case False
  with src have inv: "\<not> isValid (snd (dereference s src))" by simp
  have s1: "s1 = s" by (rule dereference_valid_state [OF d v])
  obtain s2 src_r where ds: "dereference s src = (s2, src_r)" by (cases "dereference s src")
  define s3 where "s3 = warning (WarnStrncpyFromInvalid src) s2"
  have f: "heap s3 = heap s" "isBE s3 = isBE s"
    using dereference_state [of s src] by (simp_all add: s3_def ds)
  have "strncpy_reg s dest src n = strcpy_cstr s3 dest (HostData [0])"
    using False n inv d ds by (simp add: strncpy_reg_def s1 s3_def Let_def)
  with clear_string [OF d v bound f] show ?thesis by auto
qed

theorem C10_witness:
  "segChars locals_example 2 = Some [0x61, 0x62, 0]
   \<and> (\<exists>s'. strncpy_reg locals_example (make_reg 2 0) NULL_REG 1 = Inr s'
          \<and> segChars s' 2 = Some [0, 0x62, 0]
          \<and> getString s' (make_reg 2 0) = Inr (s', []))
   \<and> segChars locals_example 1 = Some [0x68, 0x69, 0, 0]
   \<and> \<not> isValid (snd (dereference locals_example (make_reg 7 0)))
   \<and> (\<exists>s'. strncpy_reg locals_example (make_reg 1 1) (make_reg 7 0) 5 = Inr s'
          \<and> segChars s' 1 = Some [0x68, 0, 0, 0]
          \<and> getString s' (make_reg 1 1) = Inr (s', []))"
proof -
  have d2: "dereference locals_example (make_reg 2 0)
     = (locals_example, \<lparr>isRaw = True, ptr = Some (2, 0), maxSize = 3, skipByte = False\<rparr>)"
    and d1: "dereference locals_example (make_reg 1 1)
     = (locals_example, \<lparr>isRaw = False, ptr = Some (1, 0), maxSize = 3, skipByte = True\<rparr>)"
    and d7: "\<not> isValid (snd (dereference locals_example (make_reg 7 0)))"
    by (simp_all add: locals_example_def fresh_example_def SegManager_new_def dereference_def
        isValid_def SegmentRef_new_def)
  have v: "isValid \<lparr>isRaw = True, ptr = Some (2, 0), maxSize = 3, skipByte = False\<rparr>"
    "isValid \<lparr>isRaw = False, ptr = Some (1, 0), maxSize = 3, skipByte = True\<rparr>"
    by (simp_all add: isValid_def)
  have c2: "segChars locals_example 2 = Some [0x61, 0x62, 0]"
    and c1: "segChars locals_example 1 = Some [0x68, 0x69, 0, 0]"
    by (simp_all add: segChars_def segBytes_def segCells_def locals_example_def fresh_example_def
        SegManager_new_def cellChars_def charOfCell_def upt_rec)
  have a: "\<exists>s'. strncpy_reg locals_example (make_reg 2 0) NULL_REG 1 = Inr s'
          \<and> segChars s' 2 = Some [0, 0x62, 0]
          \<and> getString s' (make_reg 2 0) = Inr (s', [])"
    using C10_strncpy_null_source_clears [OF d2 v(1), of 1 NULL_REG] c2
    by (auto simp: viewSegment_def viewStart_def isNull_def NULL_REG_def)
  have b: "\<exists>s'. strncpy_reg locals_example (make_reg 1 1) (make_reg 7 0) 5 = Inr s'
          \<and> segChars s' 1 = Some [0x68, 0, 0, 0]
          \<and> getString s' (make_reg 1 1) = Inr (s', [])"
    using C10_strncpy_null_source_clears [OF d1 v(2), of 5 "make_reg 7 0"] c1 d7
    by (auto simp: viewSegment_def viewStart_def)
  from a b c1 c2 d7 show ?thesis by blast
qed

subsection \<open>Byte copy and its bound checks\<close>

lemma int_of_size_t_small:
  assumes "n < 2 ^ 31"
  shows "int_of_size_t n = int n"
proof -
  have "sint (word_of_int (int n) :: 32 word) = signed_take_bit 31 (int n)"
    by (simp only: sint_sbintrunc') simp
  also have "\<dots> = int n"
    using assms by (simp add: signed_take_bit_int_eq_self)
  finally show ?thesis by (simp add: int_of_size_t_def)
qed

lemma int_of_size_t_wraps: "int_of_size_t 0x80000000 = - (2 ^ 31)"
  by (simp add: int_of_size_t_def)

text \<open>
  For a length below 2^31 the two checks of \<^verbatim>\<open>memcpy\<close> work as written: a length above
  either bound gives a warning and nothing else.
\<close>

lemma memcpy_reg_refuses:
  assumes dd: "dereference s dest = (s1, dr)" and vd: "isValid dr"
    and ds: "dereference s src = (s2, sr)" and vs: "isValid sr"
    and n: "n < 2 ^ 31"
    and big: "maxSize dr < int n \<or> maxSize sr < int n"
  shows "memcpy_reg s dest src n = Inr (warning (WarnBeyondEnd dest) s)
         \<or> memcpy_reg s dest src n = Inr (warning (WarnBeyondEnd src) s)"
proof -
  have e: "s1 = s" "s2 = s"
    using dereference_valid_state [OF dd vd] dereference_valid_state [OF ds vs] by simp_all
  show ?thesis
    using big vd vs dd ds
    by (auto simp: memcpy_reg_def e int_of_size_t_small [OF n])
qed

text \<open>
  C8 (at a length of 2^31). In \<open>locals_example\<close> segment 2 is a raw buffer of three
  bytes; the destination 0002:0002 has one byte left and the source 0002:0000 three.
  A copy of four bytes is refused with the warning and nothing else. A copy of 2^31
  bytes is not refused: \<^verbatim>\<open>(int)n\<close> is negative, both comparisons with maxSize pass, the
  first byte is written over the destination, and the second write is beyond the end
  of the buffer.
\<close>

theorem C8_memcpy_length_cast:
  "maxSize (snd (dereference locals_example (make_reg 2 2))) = 1
   \<and> maxSize (snd (dereference locals_example (make_reg 2 0))) = 3
   \<and> memcpy_reg locals_example (make_reg 2 2) (make_reg 2 0) 4
       = Inr (warning (WarnBeyondEnd (make_reg 2 2)) locals_example)
   \<and> segBytes locals_example 2 = Some [0x61, 0x62, 0]
   \<and> forwardCopy_loop False locals_example (2, 2) (HeapData (2, 0)) 0 1
       = Inr (putBytes locals_example 2 [0x61, 0x62, 0x61], 1, 0)
   \<and> memcpy_reg locals_example (make_reg 2 2) (make_reg 2 0) 0x80000000
       = Inl OutOfBoundsAccess"
proof -
  have d2: "dereference locals_example (make_reg 2 2)
     = (locals_example, \<lparr>isRaw = True, ptr = Some (2, 2), maxSize = 1, skipByte = False\<rparr>)"
    and d0: "dereference locals_example (make_reg 2 0)
     = (locals_example, \<lparr>isRaw = True, ptr = Some (2, 0), maxSize = 3, skipByte = False\<rparr>)"
    by (simp_all add: locals_example_def fresh_example_def SegManager_new_def dereference_def)
  have v: "isValid \<lparr>isRaw = True, ptr = Some (2, 2), maxSize = 1, skipByte = False\<rparr>"
    "isValid \<lparr>isRaw = True, ptr = Some (2, 0), maxSize = 3, skipByte = False\<rparr>"
    by (simp_all add: isValid_def)
  have sb: "segBytes locals_example 2 = Some [0x61, 0x62, 0]"
    by (simp add: segBytes_def locals_example_def fresh_example_def SegManager_new_def)
  define src where "src = HeapData (2, 0)"
  define t1 where "t1 = putBytes locals_example 2 [0x61, 0x62, 0x61]"
  have r0: "readPtr locals_example src 0 = Inr 0x61"
    using readRaw_bytes [OF sb, of 0 0] by (simp add: readPtr_def src_def)
  have w0: "writeRaw locals_example (2, 2) 0 0x61 = Inr t1"
    using writeRaw_putBytes [OF sb, of 2 0 "0x61"] by (simp add: t1_def)
  have sb1: "segBytes t1 2 = Some [0x61, 0x62, 0x61]"
    unfolding t1_def by (rule segBytes_putBytes [OF sb])
  have r1: "readPtr t1 src (Suc 0) = Inr 0x62"
    using readRaw_bytes [OF sb1, of 0 1] by (simp add: readPtr_def src_def)
  have w1: "writeRaw t1 (2, 2) (Suc 0) 0x62 = Inl OutOfBoundsAccess"
    by (simp add: writeRaw_def sb1)
  have l1: "forwardCopy_loop False t1 (2, 2) src (Suc 0) 2147483647 = Inl OutOfBoundsAccess"
    by (subst forwardCopy_loop.simps) (simp add: r1 w1)
  have l0: "forwardCopy_loop False locals_example (2, 2) src 0 2147483648 = Inl OutOfBoundsAccess"
    by (subst forwardCopy_loop.simps) (simp add: r0 w0 l1)
  have one: "forwardCopy_loop False locals_example (2, 2) src 0 1 = Inr (t1, 1, 0)"
    by (subst forwardCopy_loop.simps, simp add: r0 w0, subst forwardCopy_loop.simps, simp)
  have small: "memcpy_reg locals_example (make_reg 2 2) (make_reg 2 0) 4
       = Inr (warning (WarnBeyondEnd (make_reg 2 2)) locals_example)"
    by (simp add: memcpy_reg_def d2 d0 v int_of_size_t_small)
  have big: "memcpy_reg locals_example (make_reg 2 2) (make_reg 2 0) 0x80000000
       = Inl OutOfBoundsAccess"
    using l0
    by (simp add: memcpy_reg_def memcpy_from_ptr_def forwardCopy_def d2 d0 v
        int_of_size_t_wraps src_def)
  show ?thesis
    using small big one sb by (simp add: d2 d0 src_def t1_def)
qed

end
